theory Spec2Isabelle
  imports Complex_Main "HOL-Library.AList" "HOL-Library.List_Lexorder" "HOL-Library.Char_ord"
begin

text \<open>
  The branch-thinking server, as far as its sources go: \<open>index.ts\<close> (the tool server
  \<open>BranchingThoughtServer\<close> with \<open>processThought\<close> and \<open>handleCommand\<close>, and \<open>runServer\<close>)
  and the persistence manager \<open>ChoffPersistenceManager\<close> (\<open>saveState\<close>, \<open>loadState\<close>,
  \<open>enableAutoSave\<close>, \<open>disableAutoSave\<close>). The branch manager they call and the entity
  types are not among the sources: the manager's methods are parameters of the model,
  the entity types are taken from the specification.
\<close>

section \<open>JavaScript values\<close>

text \<open>
  The server receives its input as \<open>unknown\<close> and casts it to \<open>any\<close>; the persistence
  manager reads objects back with \<open>JSON.parse\<close>. Both work on untyped run-time values, so
  the model has a type of such values. A number is a rational (every finite double is
  one); a string is the list of the bytes of its UTF-8 form (a surrogate that stands
  alone, which slicing can leave behind, takes three bytes like any other code unit
  from U+0800 on); a \<open>Date\<close> object holds its time value in milliseconds, \<open>None\<close> for an
  invalid date; an object is the list of its own properties in insertion order.
\<close>

datatype jsval =
    VUndefined
  | VNull
  | VBool bool
  | VNum rat
  | VStr string
  | VDate "int option"
  | VArr "jsval list"
  | VObj "(string \<times> jsval) list"

text \<open>
  A JSON text is modelled by the tree it denotes: \<open>JSON.stringify\<close> builds the tree and
  \<open>JSON.parse\<close> reads it, the characters in between (indentation, escapes) are not
  modelled.
\<close>

datatype json =
    JNull
  | JBool bool
  | JNum rat
  | JStr string
  | JArr "json list"
  | JObj "(string \<times> json) list"

text \<open>
  What the code throws: an \<open>Error\<close> object (also a \<open>TypeError\<close> or \<open>SyntaxError\<close> of the
  engine) with its message, or any other value.
\<close>

datatype thrown = Error string | Thrown jsval

text \<open>
  The parts of the platform the code calls and this development does not compute:
  number formatting, the text forms of a date, date parsing, and whether \<open>chalk\<close> emits
  colour codes.
\<close>

record runtime =
  Number_toString :: "rat \<Rightarrow> string"
  Date_toISOString :: "int \<Rightarrow> string"
  Date_toString :: "int option \<Rightarrow> string"
  Date_parse :: "string \<Rightarrow> int option"
  chalk_colours :: bool

fun truthy :: "jsval \<Rightarrow> bool" where
  "truthy VUndefined = False"
| "truthy VNull = False"
| "truthy (VBool b) = b"
| "truthy (VNum n) = (n \<noteq> 0)"
| "truthy (VStr s) = (s \<noteq> [])"
| "truthy (VDate d) = True"
| "truthy (VArr xs) = True"
| "truthy (VObj ps) = True"

text \<open>
  Reading a property \<open>v.k\<close>, for the names the code reads (\<open>command\<close>, \<open>type\<close>,
  \<open>branchId\<close>, \<open>thoughts\<close>, \<open>timestamp\<close>), none of which a built-in prototype defines:
  \<open>undefined\<close> and \<open>null\<close> throw a TypeError (V8's message), an object gives its own
  property, anything else gives \<open>undefined\<close>.
\<close>

fun getProp :: "jsval \<Rightarrow> string \<Rightarrow> thrown + jsval" where
  "getProp VUndefined k =
     Inl (Error (''Cannot read properties of undefined (reading '' @ [CHR 39] @ k @ [CHR 39] @ '')''))"
| "getProp VNull k =
     Inl (Error (''Cannot read properties of null (reading '' @ [CHR 39] @ k @ [CHR 39] @ '')''))"
| "getProp (VObj ps) k = Inr (case map_of ps k of None \<Rightarrow> VUndefined | Some v \<Rightarrow> v)"
| "getProp v k = Inr VUndefined"

fun intercalate :: "string \<Rightarrow> string list \<Rightarrow> string" where
  "intercalate sep [] = []"
| "intercalate sep [x] = x"
| "intercalate sep (x # y # ys) = x @ sep @ intercalate sep (y # ys)"

text \<open>\<open>String(v)\<close> and the conversion inside a template literal.\<close>

fun js_toString :: "runtime \<Rightarrow> jsval \<Rightarrow> string" where
  "js_toString rt VUndefined = ''undefined''"
| "js_toString rt VNull = ''null''"
| "js_toString rt (VBool b) = (if b then ''true'' else ''false'')"
| "js_toString rt (VNum n) = Number_toString rt n"
| "js_toString rt (VStr s) = s"
| "js_toString rt (VDate d) = Date_toString rt d"
| "js_toString rt (VArr xs) =
     intercalate '',''
       (map (\<lambda>x. if x = VUndefined \<or> x = VNull then [] else js_toString rt x) xs)"
| "js_toString rt (VObj ps) = ''[object Object]''"

text \<open>
  \<open>JSON.stringify\<close>: a date is written by \<open>toJSON\<close> as its ISO-8601 text (\<open>null\<close> when it
  is invalid), a property whose value is \<open>undefined\<close> is left out, and \<open>undefined\<close> in an
  array is written \<open>null\<close>. The code stringifies objects and arrays only.
\<close>

fun JSON_stringify :: "runtime \<Rightarrow> jsval \<Rightarrow> json" where
  "JSON_stringify rt VUndefined = JNull"
| "JSON_stringify rt VNull = JNull"
| "JSON_stringify rt (VBool b) = JBool b"
| "JSON_stringify rt (VNum n) = JNum n"
| "JSON_stringify rt (VStr s) = JStr s"
| "JSON_stringify rt (VDate d) =
     (case d of None \<Rightarrow> JNull | Some t \<Rightarrow> JStr (Date_toISOString rt t))"
| "JSON_stringify rt (VArr xs) = JArr (map (JSON_stringify rt) xs)"
| "JSON_stringify rt (VObj ps) =
     JObj (map (\<lambda>p. (fst p, JSON_stringify rt (snd p))) (filter (\<lambda>p. snd p \<noteq> VUndefined) ps))"

text \<open>
  The value \<open>JSON.parse\<close> builds from a tree. A key that the text repeats keeps its first
  place and its last value.
\<close>

fun js_of_json :: "json \<Rightarrow> jsval" where
  "js_of_json JNull = VNull"
| "js_of_json (JBool b) = VBool b"
| "js_of_json (JNum n) = VNum n"
| "js_of_json (JStr s) = VStr s"
| "js_of_json (JArr xs) = VArr (map js_of_json xs)"
| "js_of_json (JObj ps) =
     VObj (foldl (\<lambda>acc p. AList.update (fst p) (snd p) acc) []
            (map (\<lambda>p. (fst p, js_of_json (snd p))) ps))"

text \<open>A file holds a JSON text or something \<open>JSON.parse\<close> rejects.\<close>

datatype filedata = JsonText json | OtherText string

fun JSON_parse :: "filedata \<Rightarrow> thrown + jsval" where
  "JSON_parse (JsonText j) = Inr (js_of_json j)"
| "JSON_parse (OtherText s) = Inl (Error ''Unexpected token in JSON'')"

text \<open>
  \<open>new Date(v)\<close>: a string is parsed, a number is a time value (truncated, and invalid
  beyond 8.64e15 ms), \<open>null\<close> and booleans convert to numbers, \<open>undefined\<close> gives an
  invalid date, a date is copied, any other object goes through its string form.
\<close>

definition timeClip :: "rat \<Rightarrow> int option" where
  "timeClip n =
     (if \<bar>n\<bar> \<le> 8640000000000000 then Some (if 0 \<le> n then \<lfloor>n\<rfloor> else - \<lfloor>- n\<rfloor>) else None)"

fun new_Date :: "runtime \<Rightarrow> jsval \<Rightarrow> jsval" where
  "new_Date rt VUndefined = VDate None"
| "new_Date rt VNull = VDate (Some 0)"
| "new_Date rt (VBool b) = VDate (Some (if b then 1 else 0))"
| "new_Date rt (VNum n) = VDate (timeClip n)"
| "new_Date rt (VStr s) = VDate (Date_parse rt s)"
| "new_Date rt (VDate d) = VDate d"
| "new_Date rt v = VDate (Date_parse rt (js_toString rt v))"

section \<open>Entities\<close>

text \<open>
  Modelled from the spec: the entity types of \<open>types.ts\<close>, which is not among the
  sources. The fields are those the code reads (\<open>id\<close>, \<open>branchId\<close>, \<open>content\<close>,
  \<open>timestamp\<close> of a thought; \<open>id\<close>, \<open>state\<close>, \<open>priority\<close>, \<open>thoughts\<close>, \<open>insights\<close>,
  \<open>crossRefs\<close> of a branch, the last two arrays since the code takes their \<open>length\<close>);
  every other property of the object is kept, untyped, in \<open>thoughtRest\<close> and
  \<open>branchRest\<close>. A thought's \<open>timestamp\<close> is a valid \<open>Date\<close>.
\<close>

record ThoughtData =
  thoughtId :: string
  branchId :: string
  content :: string
  timestamp :: int
  thoughtRest :: "(string \<times> jsval) list"

record ThoughtBranch =
  branchIdent :: string
  state :: string
  priority :: rat
  thoughts :: "ThoughtData list"
  insights :: "jsval list"
  crossRefs :: "jsval list"
  branchRest :: "(string \<times> jsval) list"

text \<open>The run-time object behind a typed entity.\<close>

definition js_of_thought :: "ThoughtData \<Rightarrow> jsval" where
  "js_of_thought t =
     VObj ([(''id'', VStr (thoughtId t)), (''branchId'', VStr (branchId t)),
            (''content'', VStr (content t)), (''timestamp'', VDate (Some (timestamp t)))]
           @ thoughtRest t)"

definition js_of_branch :: "ThoughtBranch \<Rightarrow> jsval" where
  "js_of_branch b =
     VObj ([(''id'', VStr (branchIdent b)), (''state'', VStr (state b)),
            (''priority'', VNum (priority b)),
            (''thoughts'', VArr (map js_of_thought (thoughts b))),
            (''insights'', VArr (insights b)), (''crossRefs'', VArr (crossRefs b))]
           @ branchRest b)"

section \<open>The world the code runs in\<close>

text \<open>
  \<open>BranchManager\<close> (\<open>branchManager.ts\<close>) is not among the sources: its methods are
  parameters. Each takes the manager's state and returns a value or what it threw,
  with the state it leaves; nothing is assumed about them.
\<close>

record 'm BranchManager =
  addThought :: "jsval \<Rightarrow> 'm \<Rightarrow> (thrown + ThoughtData) \<times> 'm"
  getBranch :: "jsval \<Rightarrow> 'm \<Rightarrow> (thrown + ThoughtBranch option) \<times> 'm"
  getAllBranches :: "'m \<Rightarrow> (thrown + ThoughtBranch list) \<times> 'm"
  getActiveBranch :: "'m \<Rightarrow> (thrown + ThoughtBranch option) \<times> 'm"
  setActiveBranch :: "jsval \<Rightarrow> 'm \<Rightarrow> (thrown + unit) \<times> 'm"
  getBranchHistory :: "jsval \<Rightarrow> 'm \<Rightarrow> (thrown + string) \<times> 'm"
  formatBranchStatus :: "ThoughtBranch option \<Rightarrow> 'm \<Rightarrow> (thrown + string) \<times> 'm"
  reconstructBranch :: "jsval \<Rightarrow> 'm \<Rightarrow> (thrown + unit) \<times> 'm"

text \<open>
  Every call of a manager method and every file-system operation is recorded, in
  order, so that claims about what is called, how often and in which order can be
  stated.
\<close>

datatype event =
    AddThought jsval
  | GetBranch jsval
  | GetAllBranches
  | GetActiveBranch
  | SetActiveBranch jsval
  | GetBranchHistory jsval
  | FormatBranchStatus "ThoughtBranch option"
  | ReconstructBranch jsval
  | FsAccess
  | FsMkdir
  | FsWriteFile string filedata
  | FsReaddir
  | FsReadFile string

fun is_manager_call :: "event \<Rightarrow> bool" where
  "is_manager_call FsAccess = False"
| "is_manager_call FsMkdir = False"
| "is_manager_call (FsWriteFile n d) = False"
| "is_manager_call FsReaddir = False"
| "is_manager_call (FsReadFile n) = False"
| "is_manager_call e = True"

fun is_AddThought :: "event \<Rightarrow> bool" where
  "is_AddThought (AddThought x) = True"
| "is_AddThought e = False"

fun is_FsWriteFile :: "event \<Rightarrow> bool" where
  "is_FsWriteFile (FsWriteFile n d) = True"
| "is_FsWriteFile e = False"

datatype fs_op = OpAccess | OpMkdir | OpWriteFile string | OpReaddir | OpReadFile string

text \<open>What \<open>console.error\<close> printed: a line, or a label followed by what was caught.\<close>

datatype logline = Line string | Caught string thrown

text \<open>
  The state: the manager's; the events so far; standard error; the storage directory
  (the segments of its absolute path \<open>storageDir\<close>, whether it exists, and its files by
  name, in the order \<open>readdir\<close> lists them); which file-system operations fail now, and
  with what message; the time \<open>new Date()\<close> reads; the persistence manager's
  \<open>autoSaveInterval\<close> field; and the interval timers that are scheduled.
\<close>

record 'm world =
  manager :: 'm
  events :: "event list"
  stderr :: "logline list"
  storageDir :: "string list"
  dirPresent :: bool
  files :: "(string \<times> filedata) list"
  fault :: "fs_op \<Rightarrow> string option"
  clock :: int
  autoSaveInterval :: "nat option"
  timers :: "(nat \<times> rat) list"
  nextTimer :: nat

text \<open>Sequencing of steps that may throw, \<open>try\<close>/\<open>catch\<close>, and a recorded manager call.\<close>

definition andThen ::
  "('s \<Rightarrow> (thrown + 'a) \<times> 's) \<Rightarrow> ('a \<Rightarrow> 's \<Rightarrow> (thrown + 'b) \<times> 's) \<Rightarrow> 's \<Rightarrow> (thrown + 'b) \<times> 's" where
  "andThen m f s = (case m s of (Inl e, s') \<Rightarrow> (Inl e, s') | (Inr x, s') \<Rightarrow> f x s')"

definition done_with :: "'a \<Rightarrow> 's \<Rightarrow> (thrown + 'a) \<times> 's" where
  "done_with x s = (Inr x, s)"

definition throw :: "thrown \<Rightarrow> 's \<Rightarrow> (thrown + 'a) \<times> 's" where
  "throw e s = (Inl e, s)"

definition lift :: "thrown + 'a \<Rightarrow> 's \<Rightarrow> (thrown + 'a) \<times> 's" where
  "lift r s = (r, s)"

definition call ::
  "event \<Rightarrow> ('m \<Rightarrow> (thrown + 'a) \<times> 'm) \<Rightarrow> 'm world \<Rightarrow> (thrown + 'a) \<times> 'm world" where
  "call ev f w =
     (case f (manager w) of (r, m') \<Rightarrow> (r, w\<lparr>manager := m', events := events w @ [ev]\<rparr>))"

definition console_error :: "logline \<Rightarrow> 'm world \<Rightarrow> (thrown + unit) \<times> 'm world" where
  "console_error l w = (Inr (), w\<lparr>stderr := stderr w @ [l]\<rparr>)"

text \<open>\<open>error instanceof Error ? error.message : String(error)\<close>\<close>

fun error_message :: "runtime \<Rightarrow> thrown \<Rightarrow> string" where
  "error_message rt (Error m) = m"
| "error_message rt (Thrown v) = js_toString rt v"

section \<open>The server: \<open>BranchingThoughtServer\<close>\<close>

text \<open>
  A response: \<open>content\<close> is a list of items \<open>{type, text}\<close>, and \<open>isError\<close> may be absent.
  The text of an item is a plain string or the result of \<open>JSON.stringify(..., null, 2)\<close>,
  kept as the tree it denotes.
\<close>

datatype body = Plain string | Stringified json

record item =
  itemType :: string
  itemText :: body

record response =
  respContent :: "item list"
  isError :: "bool option"

definition text_response :: "body \<Rightarrow> response" where
  "text_response b = \<lparr>respContent = [\<lparr>itemType = ''text'', itemText = b\<rparr>], isError = None\<rparr>"

text \<open>
  The object both \<open>catch\<close> blocks stringify:
  \<open>{error: error instanceof Error ? error.message : String(error), status: 'failed'}\<close>.
\<close>

definition failure_body :: "runtime \<Rightarrow> thrown \<Rightarrow> body" where
  "failure_body rt e =
     Stringified (JSON_stringify rt
       (VObj [(''error'', VStr (error_message rt e)), (''status'', VStr ''failed'')]))"


text \<open>
  \<open>chalk.green\<close> wraps its argument in the colour codes when colours are on. The arrow
  U+2192 is written as its three UTF-8 bytes.
\<close>

definition chalk_green :: "runtime \<Rightarrow> string \<Rightarrow> string" where
  "chalk_green rt s =
     (if chalk_colours rt then [CHR 0x1B] @ ''[32m'' @ s @ [CHR 0x1B] @ ''[39m'' else s)"

definition arrow :: string where
  "arrow = [CHR 0xE2, CHR 0x86, CHR 0x92]"

text \<open>
  \<open>s.slice(0, n)\<close> counts UTF-16 code units. In UTF-8 a character below U+10000 is one
  unit, written in one, two or three bytes according to its first byte; a character
  from U+10000 on is four bytes and two units, a surrogate pair. When only one unit is
  left for such a character the slice ends with its high surrogate alone,
  \<open>0xD800 + (c - 0x10000) div 1024\<close> for the code point \<open>c\<close>, in its three bytes (the
  bytes a truncated text lacks read as 0).
\<close>

definition high_surrogate :: "string \<Rightarrow> string" where
  "high_surrogate bs =
     (let b = map (of_char :: char \<Rightarrow> nat) bs @ [0, 0, 0, 0];
          c = (b ! 0 mod 8) * 262144 + (b ! 1 mod 64) * 4096 + (b ! 2 mod 64) * 64 + b ! 3 mod 64;
          h = (c - 65536) div 1024
      in [CHR 0xED, char_of (160 + h div 64), char_of (128 + h mod 64)])"

fun slice_0 :: "nat \<Rightarrow> string \<Rightarrow> string" where
  "slice_0 0 s = []"
| "slice_0 (Suc n) [] = []"
| "slice_0 (Suc n) (c # s) =
     (if (of_char c :: nat) < 192 then c # slice_0 n s
      else if (of_char c :: nat) < 224 then c # take 1 s @ slice_0 n (drop 1 s)
      else if (of_char c :: nat) < 240 then c # take 2 s @ slice_0 n (drop 2 s)
      else if n = 0 then high_surrogate (c # take 3 s)
      else c # take 3 s @ slice_0 (n - 1) (drop 3 s))"

text \<open>
  One line of the \<open>list\<close> output:
  \<open>`${prefix} ${b.id} [${b.state}] - ${b.thoughts[b.thoughts.length - 1]?.content.slice(0, 50)}...`\<close>.
  With no thought the optional chain gives \<open>undefined\<close>, which the template prints.
\<close>

definition list_line :: "runtime \<Rightarrow> string option \<Rightarrow> ThoughtBranch \<Rightarrow> string" where
  "list_line rt activeBranchId b =
     (let isActive = (Some (branchIdent b) = activeBranchId);
          prefix = (if isActive then chalk_green rt arrow else '' '')
      in prefix @ '' '' @ branchIdent b @ '' ['' @ state b @ ''] - '' @
         (case thoughts b of [] \<Rightarrow> ''undefined''
          | t # ts \<Rightarrow> slice_0 50 (content (last (thoughts b)))) @ ''...'')"

text \<open>The body of \<open>handleCommand\<close>'s \<open>try\<close> block.\<close>

definition handleCommand_try ::
  "runtime \<Rightarrow> 'm BranchManager \<Rightarrow> jsval \<Rightarrow> 'm world \<Rightarrow> (thrown + response) \<times> 'm world" where
  "handleCommand_try rt mgr command =
     andThen (lift (getProp command ''type'')) (\<lambda>ty.
       if ty = VStr ''list'' then
         andThen (call GetAllBranches (getAllBranches mgr)) (\<lambda>branches.
         andThen (call GetActiveBranch (getActiveBranch mgr)) (\<lambda>active.
           done_with (text_response (Plain (''Current Branches:'' @ [CHR 0x0A] @
             intercalate [CHR 0x0A]
               (map (list_line rt (map_option branchIdent active)) branches))))))
       else if ty = VStr ''focus'' then
         andThen (lift (getProp command ''branchId'')) (\<lambda>bid.
           if \<not> truthy bid then throw (Error ''branchId required for focus command'')
           else
             andThen (call (SetActiveBranch bid) (setActiveBranch mgr bid)) (\<lambda>u.
             andThen (call (GetBranch bid) (getBranch mgr bid)) (\<lambda>branch.
             andThen (call (FormatBranchStatus branch) (formatBranchStatus mgr branch))
               (\<lambda>formattedStatus.
             andThen (console_error (Line formattedStatus)) (\<lambda>u.
               done_with (text_response (Stringified (JSON_stringify rt
                 (VObj [(''status'', VStr ''success''),
                        (''message'', VStr (''Now focused on branch: '' @ js_toString rt bid)),
                        (''activeBranch'', bid)])))))))))
       else if ty = VStr ''history'' then
         andThen (lift (getProp command ''branchId'')) (\<lambda>bid.
         andThen
           (if truthy bid then done_with bid
            else andThen (call GetActiveBranch (getActiveBranch mgr)) (\<lambda>active.
                   done_with (case active of None \<Rightarrow> VUndefined
                              | Some a \<Rightarrow> VStr (branchIdent a)))) (\<lambda>branchId.
           if \<not> truthy branchId
           then throw (Error ''No active branch and no branchId provided'')
           else
             andThen (call (GetBranch branchId) (getBranch mgr branchId)) (\<lambda>branch.
             andThen (call (GetBranchHistory branchId) (getBranchHistory mgr branchId))
               (\<lambda>history.
               done_with (text_response (Plain history))))))
       else throw (Error (''Unknown command: '' @ js_toString rt ty)))"

definition handleCommand ::
  "runtime \<Rightarrow> 'm BranchManager \<Rightarrow> jsval \<Rightarrow> 'm world \<Rightarrow> response \<times> 'm world" where
  "handleCommand rt mgr command w =
     (case handleCommand_try rt mgr command w of
        (Inr r, w') \<Rightarrow> (r, w')
      | (Inl e, w') \<Rightarrow> (text_response (failure_body rt e), w'))"

text \<open>
  The body of \<open>processThought\<close>'s \<open>try\<close> block. The object literal of the answer reads
  \<open>branch.state\<close> before it calls \<open>getActiveBranch\<close>, so an absent branch throws first.
\<close>

definition processThought_try ::
  "runtime \<Rightarrow> 'm BranchManager \<Rightarrow> jsval \<Rightarrow> 'm world \<Rightarrow> (thrown + response) \<times> 'm world" where
  "processThought_try rt mgr input =
     andThen (lift (getProp input ''command'')) (\<lambda>command.
       if truthy command
       then (\<lambda>w. case handleCommand rt mgr command w of (r, w') \<Rightarrow> (Inr r, w'))
       else
         andThen (call (AddThought input) (addThought mgr input)) (\<lambda>thought.
         andThen (call (GetBranch (VStr (branchId thought)))
                    (getBranch mgr (VStr (branchId thought)))) (\<lambda>branch.
         andThen (call (FormatBranchStatus branch) (formatBranchStatus mgr branch))
           (\<lambda>formattedStatus.
         andThen (console_error (Line formattedStatus)) (\<lambda>u.
         andThen (lift (case branch of
                    None \<Rightarrow> Inl (Error (''Cannot read properties of undefined (reading ''
                                         @ [CHR 39] @ ''state'' @ [CHR 39] @ '')''))
                  | Some b \<Rightarrow> Inr b)) (\<lambda>b.
         andThen (call GetActiveBranch (getActiveBranch mgr)) (\<lambda>active.
           done_with (text_response (Stringified (JSON_stringify rt
             (VObj [(''thoughtId'', VStr (thoughtId thought)),
                    (''branchId'', VStr (branchId thought)),
                    (''branchState'', VStr (state b)),
                    (''branchPriority'', VNum (priority b)),
                    (''numInsights'', VNum (of_nat (length (insights b)))),
                    (''numCrossRefs'', VNum (of_nat (length (crossRefs b)))),
                    (''activeBranch'', (case active of None \<Rightarrow> VUndefined
                                        | Some a \<Rightarrow> VStr (branchIdent a)))])))))))))))"

definition processThought ::
  "runtime \<Rightarrow> 'm BranchManager \<Rightarrow> jsval \<Rightarrow> 'm world \<Rightarrow> response \<times> 'm world" where
  "processThought rt mgr input w =
     (case processThought_try rt mgr input w of
        (Inr r, w') \<Rightarrow> (r, w')
      | (Inl e, w') \<Rightarrow>
          (\<lparr>respContent = [\<lparr>itemType = ''text'', itemText = failure_body rt e\<rparr>],
            isError = Some True\<rparr>, w'))"

text \<open>
  \<open>runServer\<close>: the server object's \<open>initialize\<close> (which awaits the manager's, not among
  the sources) and the transport's \<open>connect\<close> are parameters; registering the request
  handlers changes nothing here. A failure is logged and the process exits with code 1.
\<close>

datatype outcome = Running | Exited nat

definition runServer ::
  "('m world \<Rightarrow> (thrown + unit) \<times> 'm world) \<Rightarrow> ('m world \<Rightarrow> (thrown + unit) \<times> 'm world) \<Rightarrow>
   'm world \<Rightarrow> outcome \<times> 'm world" where
  "runServer initialize connect w =
     (case andThen initialize (\<lambda>u. andThen connect (\<lambda>u.
             console_error (Line ''Branch Thinking MCP Server running on stdio''))) w of
        (Inr u, w') \<Rightarrow> (Running, w')
      | (Inl e, w') \<Rightarrow>
          (Exited 1, snd (console_error (Caught ''Fatal error initializing server:'' e) w')))"

section \<open>The persistence manager: \<open>ChoffPersistenceManager\<close>\<close>

subsection \<open>The file system\<close>

text \<open>
  The storage directory holds files only (the code makes no directory inside it), and
  the model knows nothing of the file system around it. \<open>files\<close> holds the entries by
  name in the order \<open>readdir\<close> lists them, which is the byte order of the names (libuv
  sorts the listing with \<open>strcmp\<close>). The name given to an operation is the second
  argument of \<open>path.join(storageDir, name)\<close>, on a POSIX, case-sensitive file system. An
  operation fails when \<open>fault\<close> says so, or when the directory or the file is not there.
\<close>

definition record_event :: "event \<Rightarrow> 'm world \<Rightarrow> 'm world" where
  "record_event ev w = w\<lparr>events := events w @ [ev]\<rparr>"

definition fs_access :: "'m world \<Rightarrow> (thrown + unit) \<times> 'm world" where
  "fs_access w =
     (case fault w OpAccess of
        Some msg \<Rightarrow> (Inl (Error msg), record_event FsAccess w)
      | None \<Rightarrow>
          if dirPresent w then (Inr (), record_event FsAccess w)
          else (Inl (Error ''ENOENT: no such file or directory''), record_event FsAccess w))"

definition fs_mkdir :: "'m world \<Rightarrow> (thrown + unit) \<times> 'm world" where
  "fs_mkdir w =
     (case fault w OpMkdir of
        Some msg \<Rightarrow> (Inl (Error msg), record_event FsMkdir w)
      | None \<Rightarrow> (Inr (), (record_event FsMkdir w)\<lparr>dirPresent := True\<rparr>))"

text \<open>
  \<open>path.join(storageDir, name)\<close> is \<open>path.normalize(storageDir + '/' + name)\<close>: the name
  is cut at its slashes, empty segments and \<open>.\<close> are dropped, and \<open>..\<close> drops the segment
  before it (at the root it is dropped itself). \<open>storageDir\<close> is normalized already, being
  itself the result of a \<open>path.join\<close>. The path found is an entry of the directory,
  or lies below one of its entries, or is the directory itself or one above it, or is
  elsewhere.
\<close>

fun split_path :: "string \<Rightarrow> string list" where
  "split_path [] = [[]]"
| "split_path (c # s) =
     (if c = CHR ''/'' then [] # split_path s
      else (c # hd (split_path s)) # tl (split_path s))"

fun path_normalize :: "string list \<Rightarrow> string list \<Rightarrow> string list" where
  "path_normalize up [] = rev up"
| "path_normalize up (s # ss) =
     (if s = [] \<or> s = ''.'' then path_normalize up ss
      else if s = ''..'' then path_normalize (tl up) ss
      else path_normalize (s # up) ss)"

definition path_join :: "string list \<Rightarrow> string \<Rightarrow> string list" where
  "path_join dir name = path_normalize (rev dir) (split_path name)"

datatype place = Entry string | Below string | Directory | Elsewhere

definition place_of :: "string list \<Rightarrow> string list \<Rightarrow> place" where
  "place_of dir p =
     (if take (length p) dir = p then Directory
      else if take (length dir) p = dir
      then (case drop (length dir) p of [n] \<Rightarrow> Entry n | n # ns \<Rightarrow> Below n | [] \<Rightarrow> Directory)
      else Elsewhere)"

text \<open>
  A file written into the directory: an entry of that name gets the new content, a new
  name takes its place in the order of the listing.
\<close>

fun put_file :: "string \<Rightarrow> filedata \<Rightarrow> (string \<times> filedata) list \<Rightarrow> (string \<times> filedata) list" where
  "put_file name d [] = [(name, d)]"
| "put_file name d (f # fs) =
     (if name = fst f then (name, d) # fs
      else if name < fst f then (name, d) # f # fs
      else f # put_file name d fs)"

text \<open>
  \<open>fs.writeFile(path.join(storageDir, name), data)\<close>. Node rejects a path with a NUL
  byte. A path that is an entry of the directory is written, if the directory exists;
  with a slash at its end it is opened as a directory and fails (\<open>ENOTDIR\<close> when the
  entry is there, a file; \<open>EISDIR\<close> when it is not). A path below an entry fails: the
  entry is a file (\<open>ENOTDIR\<close>) or is not there (\<open>ENOENT\<close>). When the directory exists,
  the path that is the directory, or one above it, is a directory (\<open>EISDIR\<close>). A write
  elsewhere, or in the place of a directory that does not exist, is a matter of the
  file system around, which \<open>fault\<close> stands for, as it does for the limits of the
  file system (space, permissions, the length of a name): unless it fails, it
  succeeds and leaves the entries of the directory as they are.
\<close>

definition fs_writeFile :: "string \<Rightarrow> filedata \<Rightarrow> 'm world \<Rightarrow> (thrown + unit) \<times> 'm world" where
  "fs_writeFile name d w =
     (if CHR 0x00 \<in> set name
      then (Inl (Error ''The argument path must be a string without null bytes''),
            record_event (FsWriteFile name d) w)
      else
        case fault w (OpWriteFile name) of
          Some msg \<Rightarrow> (Inl (Error msg), record_event (FsWriteFile name d) w)
        | None \<Rightarrow>
            (case place_of (storageDir w) (path_join (storageDir w) name) of
               Entry n \<Rightarrow>
                 if \<not> dirPresent w
                 then (Inl (Error ''ENOENT: no such file or directory''),
                       record_event (FsWriteFile name d) w)
                 else if name \<noteq> [] \<and> last name = CHR ''/''
                 then (Inl (Error (if n \<in> set (map fst (files w))
                                   then ''ENOTDIR: not a directory''
                                   else ''EISDIR: illegal operation on a directory'')),
                       record_event (FsWriteFile name d) w)
                 else (Inr (), (record_event (FsWriteFile name d) w)
                                 \<lparr>files := put_file n d (files w)\<rparr>)
             | Below n \<Rightarrow>
                 if dirPresent w \<and> n \<in> set (map fst (files w))
                 then (Inl (Error ''ENOTDIR: not a directory''),
                       record_event (FsWriteFile name d) w)
                 else (Inl (Error ''ENOENT: no such file or directory''),
                       record_event (FsWriteFile name d) w)
             | Directory \<Rightarrow>
                 if dirPresent w \<or> (name \<noteq> [] \<and> last name = CHR ''/'')
                 then (Inl (Error ''EISDIR: illegal operation on a directory''),
                       record_event (FsWriteFile name d) w)
                 else (Inr (), record_event (FsWriteFile name d) w)
             | Elsewhere \<Rightarrow>
                 if name \<noteq> [] \<and> last name = CHR ''/''
                 then (Inl (Error ''EISDIR: illegal operation on a directory''),
                       record_event (FsWriteFile name d) w)
                 else (Inr (), record_event (FsWriteFile name d) w)))"

text \<open>
  \<open>readdir\<close> lists the entries; \<open>readFile\<close> is given one of them (an entry has no slash
  in its name and is neither \<open>.\<close> nor \<open>..\<close>, so \<open>path.join\<close> leaves it in the directory).
\<close>

definition fs_readdir :: "'m world \<Rightarrow> (thrown + string list) \<times> 'm world" where
  "fs_readdir w =
     (case fault w OpReaddir of
        Some msg \<Rightarrow> (Inl (Error msg), record_event FsReaddir w)
      | None \<Rightarrow>
          if dirPresent w then (Inr (map fst (files w)), record_event FsReaddir w)
          else (Inl (Error ''ENOENT: no such file or directory''), record_event FsReaddir w))"

definition fs_readFile :: "string \<Rightarrow> 'm world \<Rightarrow> (thrown + filedata) \<times> 'm world" where
  "fs_readFile name w =
     (case fault w (OpReadFile name) of
        Some msg \<Rightarrow> (Inl (Error msg), record_event (FsReadFile name) w)
      | None \<Rightarrow>
          (case map_of (files w) name of
             None \<Rightarrow> (Inl (Error ''ENOENT: no such file or directory''),
                       record_event (FsReadFile name) w)
           | Some d \<Rightarrow> (Inr d, record_event (FsReadFile name) w)))"

subsection \<open>\<open>saveState\<close>\<close>

definition ensureStorageDir :: "'m world \<Rightarrow> (thrown + unit) \<times> 'm world" where
  "ensureStorageDir w =
     (case fs_access w of
        (Inr u, w') \<Rightarrow> (Inr u, w')
      | (Inl e, w') \<Rightarrow> fs_mkdir w')"

text \<open>The loop over the branches: one \<open>writeFile\<close> each, awaited before the next.\<close>

fun writeBranches :: "runtime \<Rightarrow> ThoughtBranch list \<Rightarrow> 'm world \<Rightarrow> (thrown + unit) \<times> 'm world" where
  "writeBranches rt [] w = (Inr (), w)"
| "writeBranches rt (branch # rest) w =
     (case fs_writeFile (branchIdent branch @ ''.json'')
             (JsonText (JSON_stringify rt (js_of_branch branch))) w of
        (Inl e, w') \<Rightarrow> (Inl e, w')
      | (Inr u, w') \<Rightarrow> writeBranches rt rest w')"

text \<open>
  An entry of the index. A thought's timestamp is a \<open>Date\<close> object, hence truthy, so
  \<open>|| new Date()\<close> is taken exactly when the branch has no thought.
\<close>

definition index_entry :: "int \<Rightarrow> ThoughtBranch \<Rightarrow> jsval" where
  "index_entry now b =
     VObj [(''id'', VStr (branchIdent b)),
           (''state'', VStr (state b)),
           (''priority'', VNum (priority b)),
           (''thoughtCount'', VNum (of_nat (length (thoughts b)))),
           (''lastUpdated'',
              VDate (Some (case thoughts b of [] \<Rightarrow> now
                           | t # ts \<Rightarrow> timestamp (last (thoughts b)))))]"

definition saveState :: "runtime \<Rightarrow> 'm BranchManager \<Rightarrow> 'm world \<Rightarrow> (thrown + unit) \<times> 'm world" where
  "saveState rt mgr =
     andThen ensureStorageDir (\<lambda>u.
     andThen (call GetAllBranches (getAllBranches mgr)) (\<lambda>branches.
     andThen (writeBranches rt branches) (\<lambda>u w.
       fs_writeFile ''index.json''
         (JsonText (JSON_stringify rt (VArr (map (index_entry (clock w)) branches)))) w)))"

subsection \<open>\<open>saveState\<close> while requests are served\<close>

text \<open>
  \<open>saveState\<close> is an \<open>async\<close> function. At each \<open>await\<close> of a file-system operation it
  is suspended and the server serves the requests that arrive, which change the
  manager's state; \<open>saveState\<close> above is the run during which none arrives. A schedule
  says what the requests served at the \<open>k\<close>-th await point do to the manager's state:
  point 0 is \<open>fs.access\<close>, point 1 is \<open>fs.mkdir\<close>, point \<open>2 + i\<close> is the \<open>writeFile\<close> of the
  \<open>i\<close>-th branch, and point \<open>2 + n\<close>, for \<open>n\<close> branches, is the \<open>writeFile\<close> of the index.

  The array \<open>getAllBranches\<close> returns holds references to objects, and \<open>saveState\<close> reads
  an object when it stringifies it. \<open>BranchManager\<close> is not among the sources, so what
  it hands out is a parameter: the references in the array, and the object behind a
  reference in a given state of the manager (for a manager that hands out copies, the
  same in every state). The array itself is taken not to change once it is returned.
\<close>

type_synonym 'm schedule = "nat \<Rightarrow> 'm \<Rightarrow> 'm"

record ('m, 'r) LiveBranches =
  getAllBranches_refs :: "'m \<Rightarrow> (thrown + 'r list) \<times> 'm"
  deref :: "'m \<Rightarrow> 'r \<Rightarrow> ThoughtBranch"

text \<open>\<open>await op\<close> at point \<open>k\<close>: the operation, then the requests served meanwhile.\<close>

definition await ::
  "'m schedule \<Rightarrow> nat \<Rightarrow> ('m world \<Rightarrow> (thrown + 'a) \<times> 'm world) \<Rightarrow> 'm world \<Rightarrow>
   (thrown + 'a) \<times> 'm world" where
  "await sched k op w = (case op w of (r, w') \<Rightarrow> (r, w'\<lparr>manager := sched k (manager w')\<rparr>))"

definition ensureStorageDir_async :: "'m schedule \<Rightarrow> 'm world \<Rightarrow> (thrown + unit) \<times> 'm world" where
  "ensureStorageDir_async sched w =
     (case await sched 0 fs_access w of
        (Inr u, w') \<Rightarrow> (Inr u, w')
      | (Inl e, w') \<Rightarrow> await sched 1 fs_mkdir w')"

text \<open>
  The loop: the file name and the text are computed from the object as it is when its
  turn comes, then the write is awaited.
\<close>

fun writeBranches_async ::
  "runtime \<Rightarrow> ('m, 'r) LiveBranches \<Rightarrow> 'm schedule \<Rightarrow> nat \<Rightarrow> 'r list \<Rightarrow> 'm world \<Rightarrow>
   (thrown + unit) \<times> 'm world" where
  "writeBranches_async rt obj sched k [] w = (Inr (), w)"
| "writeBranches_async rt obj sched k (branch # rest) w =
     (case await sched k
             (fs_writeFile (branchIdent (deref obj (manager w) branch) @ ''.json'')
                (JsonText (JSON_stringify rt (js_of_branch (deref obj (manager w) branch))))) w of
        (Inl e, w') \<Rightarrow> (Inl e, w')
      | (Inr u, w') \<Rightarrow> writeBranches_async rt obj sched (Suc k) rest w')"

text \<open>The index is built from the objects as they are after the last branch is written.\<close>

definition saveState_async ::
  "runtime \<Rightarrow> ('m, 'r) LiveBranches \<Rightarrow> 'm schedule \<Rightarrow> 'm world \<Rightarrow> (thrown + unit) \<times> 'm world" where
  "saveState_async rt obj sched =
     andThen (ensureStorageDir_async sched) (\<lambda>u.
     andThen (call GetAllBranches (getAllBranches_refs obj)) (\<lambda>branches.
     andThen (writeBranches_async rt obj sched 2 branches) (\<lambda>u w.
       await sched (2 + length branches)
         (fs_writeFile ''index.json''
            (JsonText (JSON_stringify rt
               (VArr (map (index_entry (clock w)) (map (deref obj (manager w)) branches)))))) w)))"

subsection \<open>\<open>loadState\<close>\<close>

definition endsWith :: "string \<Rightarrow> string \<Rightarrow> bool" where
  "endsWith s suf = (length suf \<le> length s \<and> drop (length s - length suf) s = suf)"

definition js_typeof :: "jsval \<Rightarrow> string" where
  "js_typeof v =
     (case v of VUndefined \<Rightarrow> ''undefined'' | VBool b \<Rightarrow> ''boolean'' | VNum n \<Rightarrow> ''number''
      | VStr s \<Rightarrow> ''string'' | _ \<Rightarrow> ''object'')"

text \<open>
  \<open>t.timestamp = new Date(t.timestamp)\<close> on one element of \<open>thoughts\<close>. The module is
  strict code, so the assignment throws on a primitive. On an array it sets a named
  property, which the model's arrays do not have and \<open>JSON.stringify\<close> never writes.
\<close>

fun set_timestamp :: "runtime \<Rightarrow> jsval \<Rightarrow> thrown + jsval" where
  "set_timestamp rt (VObj ps) =
     Inr (VObj (AList.update ''timestamp''
                  (new_Date rt (case map_of ps ''timestamp'' of None \<Rightarrow> VUndefined
                                | Some v \<Rightarrow> v)) ps))"
| "set_timestamp rt (VArr xs) = Inr (VArr xs)"
| "set_timestamp rt (VDate d) = Inr (VDate d)"
| "set_timestamp rt VUndefined = getProp VUndefined ''timestamp''"
| "set_timestamp rt VNull = getProp VNull ''timestamp''"
| "set_timestamp rt v =
     Inl (Error (''Cannot create property '' @ [CHR 39] @ ''timestamp'' @ [CHR 39] @ '' on ''
                 @ js_typeof v @ '' '' @ [CHR 39] @ js_toString rt v @ [CHR 39]))"

fun rehydrate_each :: "runtime \<Rightarrow> jsval list \<Rightarrow> thrown + jsval list" where
  "rehydrate_each rt [] = Inr []"
| "rehydrate_each rt (t # ts) =
     (case set_timestamp rt t of
        Inl e \<Rightarrow> Inl e
      | Inr t' \<Rightarrow> (case rehydrate_each rt ts of Inl e \<Rightarrow> Inl e | Inr ts' \<Rightarrow> Inr (t' # ts')))"

text \<open>
  \<open>branch.thoughts.forEach(t => { t.timestamp = new Date(t.timestamp) })\<close>: the thoughts
  are changed in place, so the branch is the same object with the new thoughts.
\<close>

fun rehydrate :: "runtime \<Rightarrow> jsval \<Rightarrow> thrown + jsval" where
  "rehydrate rt (VObj ps) =
     (case map_of ps ''thoughts'' of
        Some (VArr ts) \<Rightarrow>
          (case rehydrate_each rt ts of
             Inl e \<Rightarrow> Inl e
           | Inr ts' \<Rightarrow> Inr (VObj (AList.update ''thoughts'' (VArr ts') ps)))
      | Some VNull \<Rightarrow> getProp VNull ''forEach''
      | Some VUndefined \<Rightarrow> getProp VUndefined ''forEach''
      | None \<Rightarrow> getProp VUndefined ''forEach''
      | Some v \<Rightarrow> Inl (Error ''branch.thoughts.forEach is not a function''))"
| "rehydrate rt VNull = getProp VNull ''thoughts''"
| "rehydrate rt VUndefined = getProp VUndefined ''thoughts''"
| "rehydrate rt v = getProp VUndefined ''forEach''"

definition is_branch_file :: "string \<Rightarrow> bool" where
  "is_branch_file file = (endsWith file ''.json'' \<and> file \<noteq> ''index.json'')"

definition loadFile :: "runtime \<Rightarrow> 'm BranchManager \<Rightarrow> string \<Rightarrow> 'm world \<Rightarrow> (thrown + unit) \<times> 'm world" where
  "loadFile rt mgr file =
     andThen (fs_readFile file) (\<lambda>content.
     andThen (lift (JSON_parse content)) (\<lambda>parsed.
     andThen (lift (rehydrate rt parsed)) (\<lambda>branch.
       call (ReconstructBranch branch) (reconstructBranch mgr branch))))"

fun loadFiles :: "runtime \<Rightarrow> 'm BranchManager \<Rightarrow> string list \<Rightarrow> 'm world \<Rightarrow> (thrown + unit) \<times> 'm world" where
  "loadFiles rt mgr [] w = (Inr (), w)"
| "loadFiles rt mgr (file # rest) w =
     (case (if is_branch_file file then loadFile rt mgr file w else (Inr (), w)) of
        (Inl e, w') \<Rightarrow> (Inl e, w')
      | (Inr u, w') \<Rightarrow> loadFiles rt mgr rest w')"

definition loadState_try :: "runtime \<Rightarrow> 'm BranchManager \<Rightarrow> 'm world \<Rightarrow> (thrown + unit) \<times> 'm world" where
  "loadState_try rt mgr =
     andThen ensureStorageDir (\<lambda>u.
     andThen fs_readdir (\<lambda>names. loadFiles rt mgr names))"

definition loadState :: "runtime \<Rightarrow> 'm BranchManager \<Rightarrow> 'm world \<Rightarrow> (thrown + unit) \<times> 'm world" where
  "loadState rt mgr w =
     (case loadState_try rt mgr w of
        (Inr u, w') \<Rightarrow> (Inr u, w')
      | (Inl e, w') \<Rightarrow>
          (Inl (Error ''Failed to load persisted state''),
           snd (console_error (Caught ''Error loading state:'' e) w')))"

subsection \<open>Autosave\<close>

text \<open>
  \<open>setInterval\<close> schedules a timer and returns its handle, \<open>clearInterval\<close> removes it.
  Every timer of the model carries the autosave callback; \<open>timers\<close> keeps each handle
  with its interval. A handle is an object, hence truthy.
\<close>

definition setInterval :: "rat \<Rightarrow> 'm world \<Rightarrow> nat \<times> 'm world" where
  "setInterval interval w =
     (nextTimer w,
      w\<lparr>timers := timers w @ [(nextTimer w, interval)], nextTimer := Suc (nextTimer w)\<rparr>)"

definition clearInterval :: "nat \<Rightarrow> 'm world \<Rightarrow> 'm world" where
  "clearInterval t w = w\<lparr>timers := filter (\<lambda>p. fst p \<noteq> t) (timers w)\<rparr>"

definition enableAutoSave :: "rat \<Rightarrow> 'm world \<Rightarrow> 'm world" where
  "enableAutoSave interval w =
     (let w1 = (case autoSaveInterval w of Some t \<Rightarrow> clearInterval t w | None \<Rightarrow> w)
      in case setInterval interval w1 of (t, w2) \<Rightarrow> w2\<lparr>autoSaveInterval := Some t\<rparr>)"

definition disableAutoSave :: "'m world \<Rightarrow> 'm world" where
  "disableAutoSave w =
     (case autoSaveInterval w of
        Some t \<Rightarrow> (clearInterval t w)\<lparr>autoSaveInterval := None\<rparr>
      | None \<Rightarrow> w)"

text \<open>The callback of the timer, and a tick of timer \<open>t\<close>: it runs while \<open>t\<close> is scheduled.\<close>

definition autoSave_callback :: "runtime \<Rightarrow> 'm BranchManager \<Rightarrow> 'm world \<Rightarrow> 'm world" where
  "autoSave_callback rt mgr w =
     (case saveState rt mgr w of
        (Inr u, w') \<Rightarrow> w'
      | (Inl e, w') \<Rightarrow> snd (console_error (Caught ''Auto-save failed:'' e) w'))"

definition tick :: "runtime \<Rightarrow> 'm BranchManager \<Rightarrow> nat \<Rightarrow> 'm world \<Rightarrow> 'm world" where
  "tick rt mgr t w = (if t \<in> set (map fst (timers w)) then autoSave_callback rt mgr w else w)"

datatype autosave_op = Enable rat | Disable

fun apply_ops :: "autosave_op list \<Rightarrow> 'm world \<Rightarrow> 'm world" where
  "apply_ops [] w = w"
| "apply_ops (Enable interval # ops) w = apply_ops ops (enableAutoSave interval w)"
| "apply_ops (Disable # ops) w = apply_ops ops (disableAutoSave w)"

section \<open>A small manager, to run the model on concrete inputs\<close>

text \<open>
  The theorems below hold for every manager. To apply them to concrete inputs, here is
  one: it keeps the branches in creation order, the id of the active one and the
  objects handed to \<open>reconstructBranch\<close>; \<open>addThought\<close> wants a non-empty \<open>content\<close> and
  appends to the branch \<open>main\<close>; \<open>setActiveBranch\<close> and \<open>getBranchHistory\<close> fail on an
  id that names no branch.
\<close>

record store =
  branches :: "ThoughtBranch list"
  activeId :: "string option"
  replayed :: "jsval list"

definition find_branch :: "store \<Rightarrow> jsval \<Rightarrow> ThoughtBranch option" where
  "find_branch s v =
     (case v of VStr i \<Rightarrow> find (\<lambda>b. branchIdent b = i) (branches s) | _ \<Rightarrow> None)"

definition sample_addThought :: "jsval \<Rightarrow> store \<Rightarrow> (thrown + ThoughtData) \<times> store" where
  "sample_addThought input s =
     (case getProp input ''content'' of
        Inr (VStr c) \<Rightarrow>
          if c = [] then (Inl (Error ''content is required''), s)
          else
            (let t = \<lparr>thoughtId = ''t1'', branchId = ''main'', content = c, timestamp = 0,
                      thoughtRest = []\<rparr>;
                 b = (case find_branch s (VStr ''main'') of
                        Some b \<Rightarrow> b
                      | None \<Rightarrow> \<lparr>branchIdent = ''main'', state = ''active'', priority = 1 / 2,
                                  thoughts = [], insights = [], crossRefs = [],
                                  branchRest = []\<rparr>)
             in (Inr t,
                 s\<lparr>branches := filter (\<lambda>x. branchIdent x \<noteq> ''main'') (branches s)
                                  @ [b\<lparr>thoughts := thoughts b @ [t]\<rparr>],
                   activeId := Some ''main''\<rparr>))
      | _ \<Rightarrow> (Inl (Error ''content is required''), s))"

definition sample_manager :: "store BranchManager" where
  "sample_manager =
     \<lparr>addThought = sample_addThought,
      getBranch = (\<lambda>v s. (Inr (find_branch s v), s)),
      getAllBranches = (\<lambda>s. (Inr (branches s), s)),
      getActiveBranch =
        (\<lambda>s. (Inr (case activeId s of None \<Rightarrow> None | Some i \<Rightarrow> find_branch s (VStr i)), s)),
      setActiveBranch =
        (\<lambda>v s. case find_branch s v of
                 None \<Rightarrow> (Inl (Error ''Branch not found''), s)
               | Some b \<Rightarrow> (Inr (), s\<lparr>activeId := Some (branchIdent b)\<rparr>)),
      getBranchHistory =
        (\<lambda>v s. case find_branch s v of
                 None \<Rightarrow> (Inl (Error ''Branch not found''), s)
               | Some b \<Rightarrow> (Inr (concat (map content (thoughts b))), s)),
      formatBranchStatus =
        (\<lambda>b s. case b of
                 None \<Rightarrow> (Inl (Error ''no branch''), s)
               | Some b \<Rightarrow> (Inr (branchIdent b @ '' ['' @ state b @ '']''), s)),
      reconstructBranch = (\<lambda>v s. (Inr (), s\<lparr>replayed := replayed s @ [v]\<rparr>))\<rparr>"

text \<open>
  A platform for the examples: it agrees with JavaScript on the two instants and the
  numbers the examples use (0 ms is 1970-01-01T00:00:00.000Z, 10^12 ms is
  2001-09-09T01:46:40.000Z).
\<close>

definition sample_runtime :: runtime where
  "sample_runtime =
     \<lparr>Number_toString = (\<lambda>n. if n = 0 then ''0'' else if n = 1 then ''1'' else ''0.5''),
      Date_toISOString =
        (\<lambda>t. if t = 0 then ''1970-01-01T00:00:00.000Z'' else ''2001-09-09T01:46:40.000Z''),
      Date_toString = (\<lambda>d. ''Invalid Date''),
      Date_parse =
        (\<lambda>s. if s = ''1970-01-01T00:00:00.000Z'' then Some 0
             else if s = ''2001-09-09T01:46:40.000Z'' then Some 1000000000000 else None),
      chalk_colours = False\<rparr>"

definition sample_thought :: "string \<Rightarrow> string \<Rightarrow> string \<Rightarrow> ThoughtData" where
  "sample_thought i b c =
     \<lparr>thoughtId = i, branchId = b, content = c, timestamp = 0,
      thoughtRest = [(''type'', VStr ''hypothesis'')]\<rparr>"

definition sample_branch :: "string \<Rightarrow> rat \<Rightarrow> ThoughtData list \<Rightarrow> ThoughtBranch" where
  "sample_branch i p ts =
     \<lparr>branchIdent = i, state = ''active'', priority = p, thoughts = ts, insights = [],
      crossRefs = [], branchRest = []\<rparr>"

text \<open>A fresh process over the given store: no storage directory yet, nothing fails.\<close>

definition fresh_world :: "'m \<Rightarrow> 'm world" where
  "fresh_world m =
     \<lparr>manager = m, events = [], stderr = [],
      storageDir = [''home'', ''user'', ''.branch-thinking''], dirPresent = False, files = [],
      fault = (\<lambda>op. None), clock = 1000000000000, autoSaveInterval = None, timers = [],
      nextTimer = 0\<rparr>"

definition empty_store :: store where
  "empty_store = \<lparr>branches = [], activeId = None, replayed = []\<rparr>"

definition one_branch_store :: store where
  "one_branch_store =
     \<lparr>branches = [sample_branch ''main'' (1 / 2) [sample_thought ''t1'' ''main'' ''Investigate latency'']],
      activeId = Some ''main'', replayed = []\<rparr>"

definition two_branch_store :: "rat \<Rightarrow> rat \<Rightarrow> store" where
  "two_branch_store p q =
     \<lparr>branches = [sample_branch ''main'' p [sample_thought ''t1'' ''main'' ''Investigate latency''],
                  sample_branch ''gc'' q []],
      activeId = Some ''main'', replayed = []\<rparr>"

text \<open>
  The same manager as its objects are shared: a reference is a branch id, and the object
  behind it is the branch of that id in the store, so that a thought added to a branch
  is seen through every reference to it. And a schedule: while the first branch is
  being written, the server processes one thought.
\<close>

definition sample_objects :: "(store, string) LiveBranches" where
  "sample_objects =
     \<lparr>getAllBranches_refs = (\<lambda>s. (Inr (map branchIdent (branches s)), s)),
      deref = (\<lambda>s i. case find (\<lambda>b. branchIdent b = i) (branches s) of
                        Some b \<Rightarrow> b
                      | None \<Rightarrow> sample_branch i 0 [])\<rparr>"

definition thought_during_first_write :: "store schedule" where
  "thought_during_first_write k s =
     (if k = 2
      then manager (snd (processThought sample_runtime sample_manager
                           (VObj [(''content'', VStr ''GC pause''), (''type'', VStr ''note'')])
                           (fresh_world s)))
      else s)"

section \<open>What the theorems speak of\<close>

text \<open>
  The write \<open>saveState\<close> makes for a branch, the file it leaves, and the index file:
  \<open>JSON.stringify\<close> of the branch under \<open>id.json\<close>, and of the array of index entries
  under \<open>index.json\<close>. \<open>after_snapshot\<close> is the world once \<open>getAllBranches\<close> has returned.
\<close>

definition write_event :: "runtime \<Rightarrow> ThoughtBranch \<Rightarrow> event" where
  "write_event rt b =
     FsWriteFile (branchIdent b @ ''.json'') (JsonText (JSON_stringify rt (js_of_branch b)))"

definition branch_file :: "runtime \<Rightarrow> ThoughtBranch \<Rightarrow> string \<times> filedata" where
  "branch_file rt b =
     (branchIdent b @ ''.json'', JsonText (JSON_stringify rt (js_of_branch b)))"

definition index_file :: "runtime \<Rightarrow> int \<Rightarrow> ThoughtBranch list \<Rightarrow> filedata" where
  "index_file rt now bs = JsonText (JSON_stringify rt (VArr (map (index_entry now) bs)))"

definition after_snapshot :: "'m world \<Rightarrow> 'm \<Rightarrow> 'm world" where
  "after_snapshot w m = w\<lparr>manager := m, events := events w @ [GetAllBranches]\<rparr>"

text \<open>
  For the interleaved run: the manager's state after the await points \<open>k\<close>, ...,
  \<open>k + i - 1\<close>, from the state \<open>m\<close>; the schedule of a run in which no request arrives;
  and the branches as values that a manager sharing its objects returns.
\<close>

fun state_at :: "'m schedule \<Rightarrow> nat \<Rightarrow> 'm \<Rightarrow> nat \<Rightarrow> 'm" where
  "state_at sched k m 0 = m"
| "state_at sched k m (Suc i) = sched (k + i) (state_at sched k m i)"

definition idle :: "'m schedule" where
  "idle k m = m"

definition values_of :: "('m, 'r) LiveBranches \<Rightarrow> 'm \<Rightarrow> (thrown + ThoughtBranch list) \<times> 'm" where
  "values_of obj m =
     (case getAllBranches_refs obj m of
        (Inl e, m') \<Rightarrow> (Inl e, m')
      | (Inr refs, m') \<Rightarrow> (Inr (map (deref obj m') refs), m'))"

text \<open>
  For the round trip. A value is plain JSON data when \<open>JSON.stringify\<close> loses nothing
  of it: no \<open>undefined\<close>, no date, no repeated key. A thought is well formed when its
  further properties are such data under names other than the four typed ones, and the
  platform parses the ISO text of its timestamp back to the same instant (as
  ECMAScript requires of \<open>Date.parse\<close> on \<open>toISOString\<close>); a branch, when its
  further properties, its insights and its cross-references are plain data and its
  thoughts are well formed. \<open>thought_on_disk\<close> and \<open>branch_on_disk\<close> are the objects
  \<open>JSON.parse\<close> gives back: the timestamps are strings.
\<close>

fun plain_json :: "jsval \<Rightarrow> bool" where
  "plain_json VUndefined = False"
| "plain_json VNull = True"
| "plain_json (VBool b) = True"
| "plain_json (VNum n) = True"
| "plain_json (VStr s) = True"
| "plain_json (VDate d) = False"
| "plain_json (VArr xs) = list_all plain_json xs"
| "plain_json (VObj ps) = (distinct (map fst ps) \<and> list_all (\<lambda>p. plain_json (snd p)) ps)"

definition well_formed_thought :: "runtime \<Rightarrow> ThoughtData \<Rightarrow> bool" where
  "well_formed_thought rt t =
     (plain_json (VObj (thoughtRest t))
      \<and> ''id'' \<notin> set (map fst (thoughtRest t))
      \<and> ''branchId'' \<notin> set (map fst (thoughtRest t))
      \<and> ''content'' \<notin> set (map fst (thoughtRest t))
      \<and> ''timestamp'' \<notin> set (map fst (thoughtRest t))
      \<and> Date_parse rt (Date_toISOString rt (timestamp t)) = Some (timestamp t))"

definition well_formed_branch :: "runtime \<Rightarrow> ThoughtBranch \<Rightarrow> bool" where
  "well_formed_branch rt b =
     (plain_json (VObj (branchRest b))
      \<and> ''id'' \<notin> set (map fst (branchRest b))
      \<and> ''state'' \<notin> set (map fst (branchRest b))
      \<and> ''priority'' \<notin> set (map fst (branchRest b))
      \<and> ''thoughts'' \<notin> set (map fst (branchRest b))
      \<and> ''insights'' \<notin> set (map fst (branchRest b))
      \<and> ''crossRefs'' \<notin> set (map fst (branchRest b))
      \<and> list_all plain_json (insights b)
      \<and> list_all plain_json (crossRefs b)
      \<and> list_all (well_formed_thought rt) (thoughts b))"

definition thought_on_disk :: "runtime \<Rightarrow> ThoughtData \<Rightarrow> jsval" where
  "thought_on_disk rt t =
     VObj ([(''id'', VStr (thoughtId t)), (''branchId'', VStr (branchId t)),
            (''content'', VStr (content t)),
            (''timestamp'', VStr (Date_toISOString rt (timestamp t)))]
           @ thoughtRest t)"

definition branch_on_disk :: "runtime \<Rightarrow> ThoughtBranch \<Rightarrow> jsval" where
  "branch_on_disk rt b =
     VObj ([(''id'', VStr (branchIdent b)), (''state'', VStr (state b)),
            (''priority'', VNum (priority b)),
            (''thoughts'', VArr (map (thought_on_disk rt) (thoughts b))),
            (''insights'', VArr (insights b)), (''crossRefs'', VArr (crossRefs b))]
           @ branchRest b)"

text \<open>
  The object \<open>loadState\<close> builds from a file of the directory: its content parsed and
  its thoughts' timestamps turned into dates; \<open>None\<close> when the file is not there, is not
  JSON, or is not a branch.
\<close>

definition stored_branch :: "runtime \<Rightarrow> 'm world \<Rightarrow> string \<Rightarrow> jsval option" where
  "stored_branch rt w file =
     (case map_of (files w) file of
        None \<Rightarrow> None
      | Some d \<Rightarrow>
          (case JSON_parse d of
             Inl e \<Rightarrow> None
           | Inr v \<Rightarrow> (case rehydrate rt v of Inl e \<Rightarrow> None | Inr b \<Rightarrow> Some b)))"

text \<open>
  An I/O failure that \<open>loadState\<close> meets: the directory can neither be accessed nor
  created, it cannot be listed, or one of its branch files cannot be read.
\<close>

definition load_io_failure :: "'m world \<Rightarrow> bool" where
  "load_io_failure w =
     (((\<not> dirPresent w \<or> fault w OpAccess \<noteq> None) \<and> fault w OpMkdir \<noteq> None)
      \<or> fault w OpReaddir \<noteq> None
      \<or> (\<exists>f \<in> set (map fst (files w)). is_branch_file f \<and> fault w (OpReadFile f) \<noteq> None))"

text \<open>
  What a step leaves alone: \<open>same_process\<close> for the clock, the faults and the timers,
  \<open>same_disk\<close> for the directory. A step is \<open>quiet\<close> when it records no call of
  \<open>addThought\<close>, and it \<open>appends\<close> when the events it leaves are those it found followed
  by its own. \<open>timer_inv\<close>: the scheduled timers are exactly the one that
  \<open>autoSaveInterval\<close> holds, if it holds one.
\<close>

definition same_process :: "'m world \<Rightarrow> 'm world \<Rightarrow> bool" where
  "same_process w w' =
     (clock w' = clock w \<and> fault w' = fault w \<and> timers w' = timers w
      \<and> autoSaveInterval w' = autoSaveInterval w \<and> nextTimer w' = nextTimer w)"

definition same_disk :: "'m world \<Rightarrow> 'm world \<Rightarrow> bool" where
  "same_disk w w' = (files w' = files w \<and> fault w' = fault w \<and> dirPresent w' = dirPresent w)"

definition quiet :: "('m world \<Rightarrow> 'a \<times> 'm world) \<Rightarrow> bool" where
  "quiet m = (\<forall>w. filter is_AddThought (events (snd (m w))) = filter is_AddThought (events w))"

text \<open>The \<open>length\<close> of a string, in UTF-16 code units.\<close>

fun code_units :: "string \<Rightarrow> nat" where
  "code_units [] = 0"
| "code_units (c # s) =
     (if (of_char c :: nat) < 192 then Suc (code_units s)
      else if (of_char c :: nat) < 224 then Suc (code_units (drop 1 s))
      else if (of_char c :: nat) < 240 then Suc (code_units (drop 2 s))
      else 2 + code_units (drop 3 s))"

definition appends :: "('m world \<Rightarrow> 'a \<times> 'm world) \<Rightarrow> bool" where
  "appends m = (\<forall>w. \<exists>es. events (snd (m w)) = events w @ es)"

definition timer_inv :: "'m world \<Rightarrow> bool" where
  "timer_inv w =
     (map fst (timers w) = (case autoSaveInterval w of None \<Rightarrow> [] | Some t \<Rightarrow> [t]))"

text \<open>
  More concrete inputs: a store with a branch named \<open>index\<close>; one whose only branch has
  no thought; the world a save of a store leaves, handed to a manager that starts
  empty; a world whose directory cannot be listed; and one with autosave on whose index
  file cannot be written.
\<close>

definition index_named_store :: store where
  "index_named_store =
     \<lparr>branches = [sample_branch ''main'' (1 / 2) [sample_thought ''t1'' ''main'' ''Investigate latency''],
                  sample_branch ''index'' 1 [sample_thought ''t2'' ''index'' ''GC pause'']],
      activeId = Some ''main'', replayed = []\<rparr>"

definition gc_store :: store where
  "gc_store = \<lparr>branches = [sample_branch ''gc'' (9 / 10) []], activeId = None, replayed = []\<rparr>"

definition saved_world :: "store \<Rightarrow> store world" where
  "saved_world s =
     (snd (saveState sample_runtime sample_manager (fresh_world s)))\<lparr>manager := empty_store\<rparr>"

definition unreadable_world :: "store world" where
  "unreadable_world =
     (fresh_world empty_store)
       \<lparr>fault := (\<lambda>op. if op = OpReaddir then Some ''EACCES: permission denied'' else None)\<rparr>"

definition full_disk_world :: "store world" where
  "full_disk_world =
     enableAutoSave 30000
       ((fresh_world one_branch_store)
          \<lparr>fault := (\<lambda>op. if op = OpWriteFile ''index.json''
                           then Some ''ENOSPC: no space left on device'' else None)\<rparr>)"

section \<open>Steps and \<open>try\<close>/\<open>catch\<close>\<close>

lemmas step_defs = andThen_def done_with_def throw_def lift_def call_def console_error_def



lemma processThought_command:
  "getProp input ''command'' = Inr command \<Longrightarrow> truthy command \<Longrightarrow>
   processThought rt mgr input w = handleCommand rt mgr command w"
  by (simp add: processThought_def processThought_try_def step_defs split: prod.splits)

section \<open>Which inputs are commands\<close>

lemma quiet_lift: "quiet (lift r)"
  by (simp add: quiet_def lift_def)

lemma quiet_throw: "quiet (throw e)"
  by (simp add: quiet_def throw_def)

lemma quiet_done_with: "quiet (done_with x)"
  by (simp add: quiet_def done_with_def)

lemma quiet_console_error: "quiet (console_error l)"
  by (simp add: quiet_def console_error_def)

lemma quiet_call: "\<not> is_AddThought ev \<Longrightarrow> quiet (call ev f)"
  by (simp add: quiet_def call_def split: prod.splits)

lemma quiet_andThen: "quiet m \<Longrightarrow> (\<And>x. quiet (f x)) \<Longrightarrow> quiet (andThen m f)"
  unfolding quiet_def andThen_def
proof
  fix w
  assume m: "\<forall>w. filter is_AddThought (events (snd (m w))) = filter is_AddThought (events w)"
    and f: "\<And>x. \<forall>w. filter is_AddThought (events (snd (f x w))) = filter is_AddThought (events w)"
  obtain r w1 where mw: "m w = (r, w1)"
    by (cases "m w")
  from m mw have e1: "filter is_AddThought (events w1) = filter is_AddThought (events w)"
    by (metis snd_conv)
  show "filter is_AddThought
          (events (snd (case m w of (Inl e, s') \<Rightarrow> (Inl e, s') | (Inr x, s') \<Rightarrow> f x s')))
        = filter is_AddThought (events w)"
  proof (cases r)
    case (Inl e)
    with mw e1 show ?thesis by simp
  next
    case (Inr x)
    with mw e1 f [of x] show ?thesis by simp
  qed
qed

lemma quiet_if: "quiet a \<Longrightarrow> quiet b \<Longrightarrow> quiet (if c then a else b)"
  by simp

lemmas quiet_rules =
  quiet_andThen quiet_if quiet_lift quiet_throw quiet_done_with quiet_console_error quiet_call

lemma quiet_handleCommand_try: "quiet (handleCommand_try rt mgr command)"
  unfolding handleCommand_try_def
  by (intro quiet_rules) simp_all

lemma handleCommand_no_addThought:
  "filter is_AddThought (events (snd (handleCommand rt mgr command w)))
     = filter is_AddThought (events w)"
proof -
  obtain r w' where run: "handleCommand_try rt mgr command w = (r, w')"
    by (cases "handleCommand_try rt mgr command w")
  have "filter is_AddThought (events (snd (handleCommand_try rt mgr command w)))
          = filter is_AddThought (events w)"
    using quiet_handleCommand_try [of rt mgr command] by (simp add: quiet_def)
  with run have "filter is_AddThought (events w') = filter is_AddThought (events w)"
    by simp
  with run show ?thesis
    by (cases r) (simp_all add: handleCommand_def)
qed

lemma handleCommand_ignores_addThought:
  "handleCommand rt (mgr\<lparr>addThought := f\<rparr>) command w = handleCommand rt mgr command w"
  by (simp add: handleCommand_def handleCommand_try_def cong: if_cong)

lemma appends_lift: "appends (lift r)"
  by (simp add: appends_def lift_def)

lemma appends_throw: "appends (throw e)"
  by (simp add: appends_def throw_def)

lemma appends_done_with: "appends (done_with x)"
  by (simp add: appends_def done_with_def)

lemma appends_console_error: "appends (console_error l)"
  by (simp add: appends_def console_error_def)

lemma appends_call: "appends (call ev f)"
  by (simp add: appends_def call_def split: prod.splits)

lemma appends_andThen: "appends m \<Longrightarrow> (\<And>x. appends (f x)) \<Longrightarrow> appends (andThen m f)"
  unfolding appends_def andThen_def
proof
  fix w
  assume m: "\<forall>w. \<exists>es. events (snd (m w)) = events w @ es"
    and f: "\<And>x. \<forall>w. \<exists>es. events (snd (f x w)) = events w @ es"
  obtain r wa where mw: "m w = (r, wa)"
    by (cases "m w")
  from m mw obtain es where ea: "events wa = events w @ es"
    by (metis snd_conv)
  show "\<exists>es. events (snd (case m w of (Inl e, s') \<Rightarrow> (Inl e, s') | (Inr x, s') \<Rightarrow> f x s'))
              = events w @ es"
  proof (cases r)
    case (Inl e)
    with mw ea show ?thesis by simp
  next
    case (Inr x)
    from f [of x] obtain es' where "events (snd (f x wa)) = events wa @ es'"
      by blast
    with Inr mw ea show ?thesis by simp
  qed
qed

lemmas appends_rules =
  appends_andThen appends_lift appends_throw appends_done_with appends_console_error appends_call

lemma andThen_lift_Inr: "andThen (lift (Inr x)) f = f x"
  by (rule ext) (simp add: andThen_def lift_def)

lemma processThought_events:
  "events (snd (processThought rt mgr input w)) = events (snd (processThought_try rt mgr input w))"
  by (simp add: processThought_def split: prod.splits sum.splits)

lemma processThought_try_thought:
  assumes "getProp input ''command'' = Inr command" and "\<not> truthy command"
  shows "\<exists>k. processThought_try rt mgr input
                = andThen (call (AddThought input) (addThought mgr input)) k
             \<and> (\<forall>x. quiet (k x)) \<and> (\<forall>x. appends (k x))"
  unfolding processThought_try_def using assms
  apply (simp only: andThen_lift_Inr if_False)
  apply (rule exI, intro conjI allI, rule refl)
   apply (intro quiet_rules; simp)
  apply (intro appends_rules)
  done

lemma call_then_events:
  assumes q: "\<forall>x. quiet (k x)" and a: "\<forall>x. appends (k x)"
  shows "filter is_AddThought (events (snd (andThen (call (AddThought v) g) k w)))
           = filter is_AddThought (events w) @ [AddThought v]
       \<and> (\<exists>es. events (snd (andThen (call (AddThought v) g) k w)) = events w @ AddThought v # es)"
proof -
  obtain r m' where g: "g (manager w) = (r, m')"
    by (cases "g (manager w)")
  let ?wa = "w\<lparr>manager := m', events := events w @ [AddThought v]\<rparr>"
  have c: "call (AddThought v) g w = (r, ?wa)"
    using g by (simp add: call_def)
  show ?thesis
  proof (cases r)
    case (Inl e)
    with c show ?thesis
      by (simp add: andThen_def)
  next
    case (Inr x)
    with c have run: "andThen (call (AddThought v) g) k w = k x ?wa"
      by (simp add: andThen_def)
    from q have "filter is_AddThought (events (snd (k x ?wa))) = filter is_AddThought (events ?wa)"
      by (simp add: quiet_def)
    moreover from a obtain es where "events (snd (k x ?wa)) = events ?wa @ es"
      unfolding appends_def by blast
    ultimately show ?thesis
      unfolding run by simp
  qed
qed

lemma processThought_thought:
  assumes "getProp input ''command'' = Inr command" and "\<not> truthy command"
  shows "filter is_AddThought (events (snd (processThought rt mgr input w)))
           = filter is_AddThought (events w) @ [AddThought input]
       \<and> (\<exists>es. events (snd (processThought rt mgr input w)) = events w @ AddThought input # es)"
proof -
  from processThought_try_thought [OF assms, of rt mgr] obtain k where
    run: "processThought_try rt mgr input
            = andThen (call (AddThought input) (addThought mgr input)) k"
    and q: "\<forall>x. quiet (k x)" and a: "\<forall>x. appends (k x)"
    by blast
  show ?thesis
    unfolding processThought_events run by (rule call_then_events [OF q a])
qed

lemma falsy_values:
  "\<not> truthy v \<longleftrightarrow> v = VUndefined \<or> v = VNull \<or> v = VBool False \<or> v = VNum 0 \<or> v = VStr []"
  by (cases v) auto

text \<open>
  C8, as the code has it. \<open>processThought\<close> tests \<open>if (inputData.command)\<close>. When the
  \<open>command\<close> property of the input is truthy (any object is), the answer is that of
  \<open>handleCommand\<close> on it, no call of \<open>addThought\<close> is recorded, and the answer does not
  depend on what \<open>addThought\<close> is, whatever else the payload holds. When it is falsy, the
  first thing \<open>processThought\<close> does is to call \<open>addThought\<close> on the whole payload, and it
  calls it once. The falsy values are \<open>undefined\<close> (the field is absent), \<open>null\<close>, \<open>false\<close>,
  \<open>0\<close> and the empty string, and no other.
\<close>

theorem command_dispatch:
  assumes "getProp input ''command'' = Inr command"
  shows "(truthy command \<longrightarrow>
            processThought rt mgr input w = handleCommand rt mgr command w
            \<and> filter is_AddThought (events (snd (processThought rt mgr input w)))
                = filter is_AddThought (events w)
            \<and> processThought rt (mgr\<lparr>addThought := f\<rparr>) input w = processThought rt mgr input w)
       \<and> (\<not> truthy command \<longrightarrow>
            filter is_AddThought (events (snd (processThought rt mgr input w)))
              = filter is_AddThought (events w) @ [AddThought input]
            \<and> (\<exists>es. events (snd (processThought rt mgr input w))
                       = events w @ AddThought input # es))
       \<and> (\<not> truthy command \<longleftrightarrow>
            command = VUndefined \<or> command = VNull \<or> command = VBool False
            \<or> command = VNum 0 \<or> command = VStr [])"
proof (intro conjI impI)
  assume t: "truthy command"
  show "processThought rt mgr input w = handleCommand rt mgr command w"
    by (rule processThought_command [OF assms t])
  then show "filter is_AddThought (events (snd (processThought rt mgr input w)))
                = filter is_AddThought (events w)"
    by (simp add: handleCommand_no_addThought)
  show "processThought rt (mgr\<lparr>addThought := f\<rparr>) input w = processThought rt mgr input w"
    using assms t
    by (simp add: processThought_command [of input command] handleCommand_ignores_addThought)
next
  assume t: "\<not> truthy command"
  show "filter is_AddThought (events (snd (processThought rt mgr input w)))
              = filter is_AddThought (events w) @ [AddThought input]"
    using processThought_thought [OF assms t] by blast
  show "\<exists>es. events (snd (processThought rt mgr input w)) = events w @ AddThought input # es"
    using processThought_thought [OF assms t] by blast
next
  show "\<not> truthy command \<longleftrightarrow>
            command = VUndefined \<or> command = VNull \<or> command = VBool False
            \<or> command = VNum 0 \<or> command = VStr []"
    by (rule falsy_values)
qed

theorem command_dispatch_witness:
  "getProp (VObj [(''command'', VObj [(''type'', VStr ''list'')]), (''content'', VStr ''x''),
                  (''type'', VStr ''note'')]) ''command'' = Inr (VObj [(''type'', VStr ''list'')])
   \<and> truthy (VObj [(''type'', VStr ''list'')])
   \<and> filter is_AddThought (events (snd (processThought sample_runtime sample_manager
         (VObj [(''command'', VObj [(''type'', VStr ''list'')]), (''content'', VStr ''x''),
                (''type'', VStr ''note'')]) (fresh_world empty_store)))) = []
   \<and> getProp (VObj [(''command'', VBool False), (''content'', VStr ''x''),
                    (''type'', VStr ''note'')]) ''command'' = Inr (VBool False)
   \<and> \<not> truthy (VBool False)
   \<and> filter is_AddThought (events (snd (processThought sample_runtime sample_manager
         (VObj [(''command'', VBool False), (''content'', VStr ''x''), (''type'', VStr ''note'')])
         (fresh_world empty_store))))
       = [AddThought (VObj [(''command'', VBool False), (''content'', VStr ''x''),
                            (''type'', VStr ''note'')])]"
proof -
  have h1: "getProp (VObj [(''command'', VObj [(''type'', VStr ''list'')]), (''content'', VStr ''x''),
                  (''type'', VStr ''note'')]) ''command'' = Inr (VObj [(''type'', VStr ''list'')])"
    by simp
  have h2: "truthy (VObj [(''type'', VStr ''list'')])"
    by simp
  have a: "filter is_AddThought (events (snd (processThought sample_runtime sample_manager
         (VObj [(''command'', VObj [(''type'', VStr ''list'')]), (''content'', VStr ''x''),
                (''type'', VStr ''note'')]) (fresh_world empty_store))))
        = filter is_AddThought (events (fresh_world empty_store))"
    using command_dispatch [OF h1, where rt = sample_runtime and mgr = sample_manager
        and w = "fresh_world empty_store" and f = sample_addThought] h2
    by blast
  have h3: "getProp (VObj [(''command'', VBool False), (''content'', VStr ''x''),
                    (''type'', VStr ''note'')]) ''command'' = Inr (VBool False)"
    by simp
  have h4: "\<not> truthy (VBool False)"
    by simp
  have b: "filter is_AddThought (events (snd (processThought sample_runtime sample_manager
         (VObj [(''command'', VBool False), (''content'', VStr ''x''), (''type'', VStr ''note'')])
         (fresh_world empty_store))))
        = filter is_AddThought (events (fresh_world empty_store))
          @ [AddThought (VObj [(''command'', VBool False), (''content'', VStr ''x''),
                               (''type'', VStr ''note'')])]"
    using command_dispatch [OF h3, where rt = sample_runtime and mgr = sample_manager
        and w = "fresh_world empty_store" and f = sample_addThought] h4
    by blast
  have n: "filter is_AddThought (events (fresh_world empty_store)) = []"
    by (simp add: fresh_world_def)
  from h1 h2 h3 h4 show ?thesis
    unfolding a b n by simp
qed

text \<open>
  C8 as stated fails: a payload whose \<open>command\<close> field is \<open>null\<close> contains a command
  field, yet the test is falsy and \<open>addThought\<close> is called with the payload.
\<close>

theorem command_falsy_counterexample:
  "getProp (VObj [(''command'', VNull), (''content'', VStr ''x''), (''type'', VStr ''note'')])
     ''command'' = Inr VNull
   \<and> filter is_AddThought (events (snd (processThought sample_runtime sample_manager
         (VObj [(''command'', VNull), (''content'', VStr ''x''), (''type'', VStr ''note'')])
         (fresh_world empty_store))))
     = [AddThought (VObj [(''command'', VNull), (''content'', VStr ''x''),
                          (''type'', VStr ''note'')])]"
  by (simp add: processThought_def processThought_try_def step_defs sample_manager_def
      sample_addThought_def find_branch_def fresh_world_def empty_store_def Let_def)

section \<open>Failures and the commands\<close>








lemma history_active:
  "getProp command ''type'' = Inr (VStr ''history'') \<Longrightarrow>
   getProp command ''branchId'' = Inr bid \<Longrightarrow> \<not> truthy bid \<Longrightarrow>
   getActiveBranch mgr (manager w) = (Inr (Some a), m1) \<Longrightarrow> branchIdent a \<noteq> [] \<Longrightarrow>
   getBranch mgr (VStr (branchIdent a)) m1 = (Inr br, m2) \<Longrightarrow>
   getBranchHistory mgr (VStr (branchIdent a)) m2 = (r, m3) \<Longrightarrow>
   handleCommand rt mgr command w =
     ((case r of Inr h \<Rightarrow> text_response (Plain h) | Inl e \<Rightarrow> text_response (failure_body rt e)),
      w\<lparr>manager := m3,
        events := events w @ [GetActiveBranch, GetBranch (VStr (branchIdent a)),
                              GetBranchHistory (VStr (branchIdent a))]\<rparr>)"
  by (cases r) (simp_all add: handleCommand_def handleCommand_try_def step_defs)

lemma history_no_active:
  "getProp command ''type'' = Inr (VStr ''history'') \<Longrightarrow>
   getProp command ''branchId'' = Inr bid \<Longrightarrow> \<not> truthy bid \<Longrightarrow>
   getActiveBranch mgr (manager w) = (Inr active, m1) \<Longrightarrow>
   active = None \<or> (\<exists>a. active = Some a \<and> branchIdent a = []) \<Longrightarrow>
   handleCommand rt mgr command w =
     (text_response (failure_body rt (Error ''No active branch and no branchId provided'')),
      w\<lparr>manager := m1, events := events w @ [GetActiveBranch]\<rparr>)"
  by (auto simp: handleCommand_def handleCommand_try_def step_defs)

lemma list_command:
  "getProp command ''type'' = Inr (VStr ''list'') \<Longrightarrow>
   getAllBranches mgr (manager w) = (Inr bs, m1) \<Longrightarrow>
   getActiveBranch mgr m1 = (Inr active, m2) \<Longrightarrow>
   handleCommand rt mgr command w =
     (text_response (Plain (''Current Branches:'' @ [CHR 0x0A] @
        intercalate [CHR 0x0A] (map (list_line rt (map_option branchIdent active)) bs))),
      w\<lparr>manager := m2, events := events w @ [GetAllBranches, GetActiveBranch]\<rparr>)"
  by (simp add: handleCommand_def handleCommand_try_def step_defs)

lemma list_line_priority: "list_line rt a (b\<lparr>priority := p\<rparr>) = list_line rt a b"
  by (simp add: list_line_def split: list.splits)

lemma list_line_marker:
  "hd (list_line rt a b) = CHR '' '' \<longleftrightarrow> Some (branchIdent b) \<noteq> a"
  by (simp add: list_line_def chalk_green_def arrow_def Let_def)

lemma list_line_eq:
  "list_line rt a b =
     (if Some (branchIdent b) = a then chalk_green rt arrow else '' '')
     @ '' '' @ branchIdent b @ '' ['' @ state b @ ''] - ''
     @ (if thoughts b = [] then ''undefined'' else slice_0 50 (content (last (thoughts b))))
     @ ''...''"
  by (simp add: list_line_def Let_def split: list.splits)

lemma slice_0_Nil: "slice_0 n [] = []"
  by (cases n) simp_all

lemma slice_0_ascii: "\<forall>c\<in>set s. (of_char c :: nat) < 128 \<Longrightarrow> slice_0 n s = take n s"
  by (induction n s rule: slice_0.induct) auto

lemma code_units_high_surrogate: "code_units (high_surrogate bs) = 1"
  by (simp add: high_surrogate_def Let_def)

lemma code_units_slice_0: "code_units (slice_0 n s) = min n (code_units s)"
proof (induction n s rule: slice_0.induct)
  case (3 n c s)
  consider (a) "(of_char c :: nat) < 192"
    | (b) "\<not> (of_char c :: nat) < 192" "(of_char c :: nat) < 224"
    | (c) "\<not> (of_char c :: nat) < 224" "(of_char c :: nat) < 240"
    | (d) "\<not> (of_char c :: nat) < 240" "n = 0"
    | (e) "\<not> (of_char c :: nat) < 240" "n \<noteq> 0"
    by linarith
  then show ?case
  proof cases
    case a
    with 3 show ?thesis by simp
  next
    case b
    then have ih: "code_units (slice_0 n (drop 1 s)) = min n (code_units (drop 1 s))"
      using 3 by simp
    have "drop 1 (take 1 s @ slice_0 n (drop 1 s)) = slice_0 n (drop 1 s)"
      by (cases s) (simp_all add: slice_0_Nil)
    with b ih show ?thesis by simp
  next
    case c
    then have ih: "code_units (slice_0 n (drop 2 s)) = min n (code_units (drop 2 s))"
      using 3 by simp
    have "drop 2 (take 2 s @ slice_0 n (drop 2 s)) = slice_0 n (drop 2 s)"
    proof (cases "length s < 2")
      case True
      then show ?thesis by (simp add: slice_0_Nil)
    next
      case False
      then show ?thesis by (simp add: min_def)
    qed
    with c ih show ?thesis by simp
  next
    case d
    then show ?thesis
      by (simp add: code_units_high_surrogate)
  next
    case e
    then have ih: "code_units (slice_0 (n - 1) (drop 3 s)) = min (n - 1) (code_units (drop 3 s))"
      using 3 by simp
    have "drop 3 (take 3 s @ slice_0 (n - 1) (drop 3 s)) = slice_0 (n - 1) (drop 3 s)"
    proof (cases "length s < 3")
      case True
      then show ?thesis by (simp add: slice_0_Nil)
    next
      case False
      then show ?thesis by (simp add: min_def)
    qed
    with e ih show ?thesis by (cases n) simp_all
  qed
qed simp_all




text \<open>
  C9, as the code has it. A history command whose \<open>branchId\<close> is absent (or falsy) asks
  the manager for the active branch. When there is one, with a non-empty id, \<open>getBranch\<close>
  and then \<open>getBranchHistory\<close> are called on that id, and the answer is the history (or
  the failure \<open>getBranchHistory\<close> threw). When there is none, the answer is the failure
  response with 'No active branch and no branchId provided', and the call of
  \<open>getActiveBranch\<close> is the only call made on the manager.
\<close>

theorem history_without_branchId:
  assumes "getProp command ''type'' = Inr (VStr ''history'')"
    and "getProp command ''branchId'' = Inr bid" and "\<not> truthy bid"
    and "getActiveBranch mgr (manager w) = (Inr active, m1)"
  shows "(\<forall>a br m2 r m3.
            active = Some a \<and> branchIdent a \<noteq> []
            \<and> getBranch mgr (VStr (branchIdent a)) m1 = (Inr br, m2)
            \<and> getBranchHistory mgr (VStr (branchIdent a)) m2 = (r, m3) \<longrightarrow>
            handleCommand rt mgr command w =
              ((case r of Inr h \<Rightarrow> text_response (Plain h)
                | Inl e \<Rightarrow> text_response (failure_body rt e)),
               w\<lparr>manager := m3,
                 events := events w @ [GetActiveBranch, GetBranch (VStr (branchIdent a)),
                                       GetBranchHistory (VStr (branchIdent a))]\<rparr>))
       \<and> (active = None \<or> (\<exists>a. active = Some a \<and> branchIdent a = []) \<longrightarrow>
            handleCommand rt mgr command w =
              (text_response
                 (failure_body rt (Error ''No active branch and no branchId provided'')),
               w\<lparr>manager := m1, events := events w @ [GetActiveBranch]\<rparr>))"
proof (intro conjI allI impI)
  fix a br m2 r m3
  assume "active = Some a \<and> branchIdent a \<noteq> []
            \<and> getBranch mgr (VStr (branchIdent a)) m1 = (Inr br, m2)
            \<and> getBranchHistory mgr (VStr (branchIdent a)) m2 = (r, m3)"
  then have a: "getActiveBranch mgr (manager w) = (Inr (Some a), m1)"
    and ne: "branchIdent a \<noteq> []"
    and gb: "getBranch mgr (VStr (branchIdent a)) m1 = (Inr br, m2)"
    and gh: "getBranchHistory mgr (VStr (branchIdent a)) m2 = (r, m3)"
    using assms(4) by simp_all
  show "handleCommand rt mgr command w =
              ((case r of Inr h \<Rightarrow> text_response (Plain h)
                | Inl e \<Rightarrow> text_response (failure_body rt e)),
               w\<lparr>manager := m3,
                 events := events w @ [GetActiveBranch, GetBranch (VStr (branchIdent a)),
                                       GetBranchHistory (VStr (branchIdent a))]\<rparr>)"
    by (rule history_active [OF assms(1) assms(2) assms(3) a ne gb gh])
next
  assume none: "active = None \<or> (\<exists>a. active = Some a \<and> branchIdent a = [])"
  show "handleCommand rt mgr command w =
              (text_response
                 (failure_body rt (Error ''No active branch and no branchId provided'')),
               w\<lparr>manager := m1, events := events w @ [GetActiveBranch]\<rparr>)"
    by (rule history_no_active [OF assms(1) assms(2) assms(3) assms(4) none])
qed

theorem history_without_branchId_witness:
  "fst (handleCommand sample_runtime sample_manager (VObj [(''type'', VStr ''history'')])
          (fresh_world one_branch_store)) = text_response (Plain ''Investigate latency'')
   \<and> events (snd (handleCommand sample_runtime sample_manager (VObj [(''type'', VStr ''history'')])
          (fresh_world one_branch_store)))
       = [GetActiveBranch, GetBranch (VStr ''main''), GetBranchHistory (VStr ''main'')]
   \<and> handleCommand sample_runtime sample_manager (VObj [(''type'', VStr ''history'')])
          (fresh_world empty_store)
       = (text_response (Stringified (JObj
            [(''error'', JStr ''No active branch and no branchId provided''),
             (''status'', JStr ''failed'')])),
          (fresh_world empty_store)\<lparr>manager := empty_store, events := [GetActiveBranch]\<rparr>)"
proof -
  let ?c = "VObj [(''type'', VStr ''history'')]"
  let ?b = "sample_branch ''main'' (1 / 2) [sample_thought ''t1'' ''main'' ''Investigate latency'']"
  have h1: "getProp ?c ''type'' = Inr (VStr ''history'')"
    by simp
  have h2: "getProp ?c ''branchId'' = Inr VUndefined"
    by simp
  have h3: "\<not> truthy VUndefined"
    by simp
  have h4: "getActiveBranch sample_manager (manager (fresh_world one_branch_store))
              = (Inr (Some ?b), one_branch_store)"
    by (simp add: sample_manager_def find_branch_def fresh_world_def one_branch_store_def
        sample_branch_def)
  have h5: "getActiveBranch sample_manager (manager (fresh_world empty_store))
              = (Inr None, empty_store)"
    by (simp add: sample_manager_def fresh_world_def empty_store_def)
  have g: "branchIdent ?b \<noteq> []
      \<and> getBranch sample_manager (VStr (branchIdent ?b)) one_branch_store
          = (Inr (Some ?b), one_branch_store)
      \<and> getBranchHistory sample_manager (VStr (branchIdent ?b)) one_branch_store
          = (Inr ''Investigate latency'', one_branch_store)"
    by (simp add: sample_manager_def find_branch_def one_branch_store_def sample_branch_def
        sample_thought_def)
  have A: "handleCommand sample_runtime sample_manager ?c (fresh_world one_branch_store)
      = (text_response (Plain ''Investigate latency''),
         (fresh_world one_branch_store)\<lparr>manager := one_branch_store,
            events := events (fresh_world one_branch_store)
              @ [GetActiveBranch, GetBranch (VStr (branchIdent ?b)),
                 GetBranchHistory (VStr (branchIdent ?b))]\<rparr>)"
    using g history_without_branchId [OF h1 h2 h3 h4, of sample_runtime]
    by force
  have B: "handleCommand sample_runtime sample_manager ?c (fresh_world empty_store)
      = (text_response
           (failure_body sample_runtime (Error ''No active branch and no branchId provided'')),
         (fresh_world empty_store)\<lparr>manager := empty_store,
            events := events (fresh_world empty_store) @ [GetActiveBranch]\<rparr>)"
    using history_without_branchId [OF h1 h2 h3 h5, of sample_runtime]
    by simp
  show ?thesis
    unfolding A B
    by (simp add: failure_body_def fresh_world_def sample_branch_def)
qed

text \<open>
  C9 as stated fails in its last clause: with no active branch, one operation of the
  manager is invoked, \<open>getActiveBranch\<close>.
\<close>

theorem history_queries_manager_counterexample:
  "getProp (VObj [(''type'', VStr ''history'')]) ''branchId'' = Inr VUndefined
   \<and> fst (getActiveBranch sample_manager empty_store) = Inr None
   \<and> events (snd (handleCommand sample_runtime sample_manager (VObj [(''type'', VStr ''history'')])
        (fresh_world empty_store))) = [GetActiveBranch]"
  by (simp add: handleCommand_def handleCommand_try_def step_defs sample_manager_def
      fresh_world_def empty_store_def)


text \<open>
  C7, as the code has it. The list command answers with one line per branch that
  \<open>getAllBranches\<close> returns, in that order: the prefix, the id, the state in brackets,
  and the first 50 UTF-16 code units of the latest thought (\<open>undefined\<close> when there is
  none): \<open>slice(0, 50)\<close> keeps 50 code units of a longer text and all of a shorter one,
  which for ASCII text are its first 50 characters. The prefix is the green arrow for
  the active branch and a blank for every other, so a line starts with a blank exactly
  when its branch is not the active one. The priority is not in the line: changing it
  leaves the line as it was.
\<close>

theorem list_command_report:
  assumes "getProp command ''type'' = Inr (VStr ''list'')"
    and "getAllBranches mgr (manager w) = (Inr bs, ma)"
    and "getActiveBranch mgr ma = (Inr active, mb)"
  shows "handleCommand rt mgr command w =
           (text_response (Plain (''Current Branches:'' @ [CHR 0x0A] @
              intercalate [CHR 0x0A] (map (list_line rt (map_option branchIdent active)) bs))),
            w\<lparr>manager := mb, events := events w @ [GetAllBranches, GetActiveBranch]\<rparr>)
       \<and> list_line rt a b =
           (if Some (branchIdent b) = a then chalk_green rt arrow else '' '')
           @ '' '' @ branchIdent b @ '' ['' @ state b @ ''] - ''
           @ (if thoughts b = [] then ''undefined'' else slice_0 50 (content (last (thoughts b))))
           @ ''...''
       \<and> code_units (slice_0 n s) = min n (code_units s)
       \<and> ((\<forall>c\<in>set s. (of_char c :: nat) < 128) \<longrightarrow> slice_0 n s = take n s)
       \<and> (hd (list_line rt a b) = CHR '' '' \<longleftrightarrow> Some (branchIdent b) \<noteq> a)
       \<and> list_line rt a (b\<lparr>priority := p\<rparr>) = list_line rt a b"
proof (intro conjI impI)
  show "handleCommand rt mgr command w =
           (text_response (Plain (''Current Branches:'' @ [CHR 0x0A] @
              intercalate [CHR 0x0A] (map (list_line rt (map_option branchIdent active)) bs))),
            w\<lparr>manager := mb, events := events w @ [GetAllBranches, GetActiveBranch]\<rparr>)"
    by (rule list_command [OF assms])
  show "list_line rt a b =
           (if Some (branchIdent b) = a then chalk_green rt arrow else '' '')
           @ '' '' @ branchIdent b @ '' ['' @ state b @ ''] - ''
           @ (if thoughts b = [] then ''undefined'' else slice_0 50 (content (last (thoughts b))))
           @ ''...''"
    by (rule list_line_eq)
  show "code_units (slice_0 n s) = min n (code_units s)"
    by (rule code_units_slice_0)
  show "hd (list_line rt a b) = CHR '' '' \<longleftrightarrow> Some (branchIdent b) \<noteq> a"
    by (rule list_line_marker)
  show "list_line rt a (b\<lparr>priority := p\<rparr>) = list_line rt a b"
    by (rule list_line_priority)
next
  assume "\<forall>c\<in>set s. (of_char c :: nat) < 128"
  then show "slice_0 n s = take n s"
    by (rule slice_0_ascii)
qed

theorem list_command_report_witness:
  "fst (handleCommand sample_runtime sample_manager (VObj [(''type'', VStr ''list'')])
          (fresh_world (two_branch_store (1 / 10) (9 / 10))))
     = text_response (Plain (''Current Branches:'' @ [CHR 0x0A]
         @ arrow @ '' main [active] - Investigate latency...'' @ [CHR 0x0A]
         @ ''  gc [active] - undefined...''))
   \<and> slice_0 50 ''Investigate latency'' = ''Investigate latency''
   \<and> list_line sample_runtime None
         (sample_branch ''b'' 1 [sample_thought ''t'' ''b'' (concat (replicate 20 arrow))])
       = ''  b [active] - '' @ concat (replicate 20 arrow) @ ''...''"
proof -
  let ?c = "VObj [(''type'', VStr ''list'')]"
  let ?s = "two_branch_store (1 / 10) (9 / 10)"
  let ?b = "sample_branch ''b'' 1 [sample_thought ''t'' ''b'' (concat (replicate 20 arrow))]"
  have h1: "getProp ?c ''type'' = Inr (VStr ''list'')"
    by simp
  have h2: "getAllBranches sample_manager (manager (fresh_world ?s)) = (Inr (branches ?s), ?s)"
    by (simp add: sample_manager_def fresh_world_def)
  have h3: "getActiveBranch sample_manager ?s = (Inr (Some (hd (branches ?s))), ?s)"
    by (simp add: sample_manager_def find_branch_def two_branch_store_def sample_branch_def)
  note T = list_command_report [OF h1 h2 h3, of sample_runtime]
  have run: "fst (handleCommand sample_runtime sample_manager ?c (fresh_world ?s))
      = text_response (Plain (''Current Branches:'' @ [CHR 0x0A] @
          intercalate [CHR 0x0A]
            (map (list_line sample_runtime (map_option branchIdent (Some (hd (branches ?s)))))
               (branches ?s))))"
    using T by simp
  have ascii: "\<forall>c\<in>set ''Investigate latency''. (of_char c :: nat) < 128"
    by simp
  have sl: "slice_0 50 ''Investigate latency'' = take 50 ''Investigate latency''"
    using T [of _ _ 50 "''Investigate latency''"] ascii by blast
  have line: "\<And>a b. list_line sample_runtime a b =
           (if Some (branchIdent b) = a then chalk_green sample_runtime arrow else '' '')
           @ '' '' @ branchIdent b @ '' ['' @ state b @ ''] - ''
           @ (if thoughts b = [] then ''undefined'' else slice_0 50 (content (last (thoughts b))))
           @ ''...''"
    using T by blast
  have arrows: "slice_0 50 (concat (replicate 20 arrow)) = concat (replicate 20 arrow)"
    by code_simp
  have 1: "fst (handleCommand sample_runtime sample_manager ?c (fresh_world ?s))
     = text_response (Plain (''Current Branches:'' @ [CHR 0x0A]
         @ arrow @ '' main [active] - Investigate latency...'' @ [CHR 0x0A]
         @ ''  gc [active] - undefined...''))"
    unfolding run line
    by (simp add: two_branch_store_def sample_branch_def sample_thought_def sl
        chalk_green_def sample_runtime_def)
  have 2: "list_line sample_runtime None ?b
       = ''  b [active] - '' @ concat (replicate 20 arrow) @ ''...''"
    unfolding line by (simp add: sample_branch_def sample_thought_def arrows)
  from 1 sl 2 show ?thesis
    by simp
qed

text \<open>
  C7 as stated fails: the list does not report the priority. Two stores whose branches
  differ only in their priorities, in opposite order, get the same answer.
\<close>

theorem list_omits_priority_counterexample:
  "fst (handleCommand sample_runtime sample_manager (VObj [(''type'', VStr ''list'')])
          (fresh_world (two_branch_store (1 / 10) (9 / 10))))
     = fst (handleCommand sample_runtime sample_manager (VObj [(''type'', VStr ''list'')])
          (fresh_world (two_branch_store (9 / 10) (1 / 10))))
   \<and> map priority (branches (two_branch_store (1 / 10) (9 / 10))) = [1 / 10, 9 / 10]
   \<and> map priority (branches (two_branch_store (9 / 10) (1 / 10))) = [9 / 10, 1 / 10]"
  by (simp add: handleCommand_def handleCommand_try_def step_defs sample_manager_def
      fresh_world_def two_branch_store_def sample_branch_def find_branch_def list_line_def)

section \<open>Autosave timers\<close>

lemma timer_inv_enable: "timer_inv w \<Longrightarrow> timer_inv (enableAutoSave i w)"
  by (auto simp: timer_inv_def enableAutoSave_def clearInterval_def setInterval_def Let_def
      split: option.splits)

lemma timers_enable: "timer_inv w \<Longrightarrow> timers (enableAutoSave i w) = [(nextTimer w, i)]"
  by (auto simp: timer_inv_def enableAutoSave_def clearInterval_def setInterval_def Let_def
      split: option.splits)

lemma timer_inv_disable: "timer_inv w \<Longrightarrow> timer_inv (disableAutoSave w)"
  by (auto simp: timer_inv_def disableAutoSave_def clearInterval_def split: option.splits)

lemma timers_disable: "timer_inv w \<Longrightarrow> timers (disableAutoSave w) = []"
  by (auto simp: timer_inv_def disableAutoSave_def clearInterval_def split: option.splits)

lemma timer_inv_apply_ops: "timer_inv w \<Longrightarrow> timer_inv (apply_ops ops w)"
proof (induction ops arbitrary: w)
  case Nil
  then show ?case by simp
next
  case (Cons op ops)
  then show ?case
    by (cases op) (simp_all add: timer_inv_enable timer_inv_disable)
qed

text \<open>
  C10. A persistence manager starts with no timer. After any sequence of
  \<open>enableAutoSave\<close> and \<open>disableAutoSave\<close> calls at most one timer is scheduled, the one
  \<open>autoSaveInterval\<close> holds; a further \<open>enableAutoSave\<close> leaves only the timer it
  schedules, and a further \<open>disableAutoSave\<close> leaves none.
\<close>

theorem autosave_at_most_one_timer:
  assumes "timers w = []" and "autoSaveInterval w = None"
  shows "length (timers (apply_ops ops w)) \<le> 1
       \<and> map fst (timers (apply_ops ops w))
           = (case autoSaveInterval (apply_ops ops w) of None \<Rightarrow> [] | Some t \<Rightarrow> [t])
       \<and> timers (enableAutoSave i (apply_ops ops w)) = [(nextTimer (apply_ops ops w), i)]
       \<and> timers (disableAutoSave (apply_ops ops w)) = []"
proof -
  have "timer_inv w"
    using assms by (simp add: timer_inv_def)
  then have inv: "timer_inv (apply_ops ops w)"
    by (rule timer_inv_apply_ops)
  then have m: "map fst (timers (apply_ops ops w))
           = (case autoSaveInterval (apply_ops ops w) of None \<Rightarrow> [] | Some t \<Rightarrow> [t])"
    by (simp add: timer_inv_def)
  have "length (map fst (timers (apply_ops ops w))) \<le> 1"
    unfolding m by (simp split: option.splits)
  then have "length (timers (apply_ops ops w)) \<le> 1"
    by simp
  with m inv show ?thesis
    by (simp add: timers_enable timers_disable)
qed

theorem autosave_at_most_one_timer_witness:
  "timers (fresh_world empty_store) = [] \<and> autoSaveInterval (fresh_world empty_store) = None
   \<and> length (timers (apply_ops [Enable 1000, Enable 5000, Disable, Enable 30000]
                (fresh_world empty_store))) \<le> 1
   \<and> timers (enableAutoSave 1 (apply_ops [Enable 1000, Enable 5000, Disable, Enable 30000]
                (fresh_world empty_store))) = [(3, 1)]"
proof -
  have h1: "timers (fresh_world empty_store) = []"
    by (simp add: fresh_world_def)
  have h2: "autoSaveInterval (fresh_world empty_store) = None"
    by (simp add: fresh_world_def)
  have n: "nextTimer (apply_ops [Enable 1000, Enable 5000, Disable, Enable 30000]
                (fresh_world empty_store)) = 3"
    by (simp add: fresh_world_def enableAutoSave_def disableAutoSave_def clearInterval_def
        setInterval_def)
  show ?thesis
    using h1 h2 n
      autosave_at_most_one_timer [OF h1 h2,
        of "[Enable 1000, Enable 5000, Disable, Enable 30000]" 1]
    by simp
qed

section \<open>Saving and loading\<close>

lemmas fs_defs = ensureStorageDir_def fs_access_def fs_mkdir_def fs_writeFile_def
  fs_readdir_def fs_readFile_def record_event_def path_join_def place_of_def

lemma same_process_refl: "same_process w w"
  by (simp add: same_process_def)

lemma same_process_trans: "same_process a b \<Longrightarrow> same_process b c \<Longrightarrow> same_process a c"
  by (simp add: same_process_def)

lemma fs_writeFile_events:
  "events (snd (fs_writeFile name d w)) = events w @ [FsWriteFile name d]"
  by (simp add: fs_writeFile_def record_event_def split: option.splits place.splits)

lemma fs_writeFile_frame:
  "same_process w (snd (fs_writeFile name d w)) \<and> manager (snd (fs_writeFile name d w)) = manager w
   \<and> stderr (snd (fs_writeFile name d w)) = stderr w"
  by (simp add: fs_writeFile_def record_event_def same_process_def
      split: option.splits place.splits)

lemma ensureStorageDir_events:
  "events (snd (ensureStorageDir w)) =
     events w @ (if fst (fs_access w) = Inr () then [FsAccess] else [FsAccess, FsMkdir])"
  by (simp add: ensureStorageDir_def fs_access_def fs_mkdir_def record_event_def
      split: option.splits)

lemma ensureStorageDir_frame:
  "same_process w (snd (ensureStorageDir w)) \<and> manager (snd (ensureStorageDir w)) = manager w
   \<and> stderr (snd (ensureStorageDir w)) = stderr w \<and> files (snd (ensureStorageDir w)) = files w"
  by (simp add: ensureStorageDir_def fs_access_def fs_mkdir_def record_event_def same_process_def
      split: option.splits)

lemma writeBranches_events:
  "\<exists>k\<le>length bs.
     events (snd (writeBranches rt bs w)) = events w @ map (write_event rt) (take k bs)
     \<and> (fst (writeBranches rt bs w) = Inr () \<longrightarrow> k = length bs)"
proof (induction bs arbitrary: w)
  case Nil
  then show ?case by simp
next
  case (Cons b bs)
  let ?step = "fs_writeFile (branchIdent b @ ''.json'')
                 (JsonText (JSON_stringify rt (js_of_branch b))) w"
  obtain r w1 where step: "?step = (r, w1)"
    by (cases ?step)
  have ev1: "events w1 = events w @ [write_event rt b]"
    using fs_writeFile_events [of "branchIdent b @ ''.json''"
        "JsonText (JSON_stringify rt (js_of_branch b))" w] step
    by (simp add: write_event_def)
  show ?case
  proof (cases r)
    case (Inl e)
    with step ev1 have "events (snd (writeBranches rt (b # bs) w))
        = events w @ map (write_event rt) (take 1 (b # bs))
      \<and> fst (writeBranches rt (b # bs) w) \<noteq> Inr ()"
      by simp
    then show ?thesis
      by (intro exI [of _ 1]) simp
  next
    case (Inr u)
    from Cons.IH [of w1] obtain k where k: "k \<le> length bs"
      and evk: "events (snd (writeBranches rt bs w1)) = events w1 @ map (write_event rt) (take k bs)"
      and ok: "fst (writeBranches rt bs w1) = Inr () \<longrightarrow> k = length bs"
      by blast
    from Inr step have run: "writeBranches rt (b # bs) w = writeBranches rt bs w1"
      by simp
    show ?thesis
      using k evk ok ev1 run by (intro exI [of _ "Suc k"]) simp
  qed
qed

lemma writeBranches_frame:
  "same_process w (snd (writeBranches rt bs w))
   \<and> manager (snd (writeBranches rt bs w)) = manager w
   \<and> stderr (snd (writeBranches rt bs w)) = stderr w"
proof (induction bs arbitrary: w)
  case Nil
  then show ?case by (simp add: same_process_def)
next
  case (Cons b bs)
  let ?step = "fs_writeFile (branchIdent b @ ''.json'')
                 (JsonText (JSON_stringify rt (js_of_branch b))) w"
  obtain r w1 where step: "?step = (r, w1)"
    by (cases ?step)
  have f1: "same_process w w1 \<and> manager w1 = manager w \<and> stderr w1 = stderr w"
    using fs_writeFile_frame [of w "branchIdent b @ ''.json''"
        "JsonText (JSON_stringify rt (js_of_branch b))"] step by simp
  show ?case
  proof (cases r)
    case (Inl e)
    with step f1 show ?thesis by simp
  next
    case (Inr u)
    with step have run: "writeBranches rt (b # bs) w = writeBranches rt bs w1"
      by simp
    show ?thesis
      unfolding run using Cons.IH [of w1] f1 by (auto intro: same_process_trans)
  qed
qed


lemma saveState_unfold:
  "saveState rt mgr w =
     (case ensureStorageDir w of
        (Inl e, w1) \<Rightarrow> (Inl e, w1)
      | (Inr u, w1) \<Rightarrow>
          (case getAllBranches mgr (manager w1) of
             (Inl e, m1) \<Rightarrow> (Inl e, after_snapshot w1 m1)
           | (Inr bs, m1) \<Rightarrow>
               (case writeBranches rt bs (after_snapshot w1 m1) of
                  (Inl e, w3) \<Rightarrow> (Inl e, w3)
                | (Inr u, w3) \<Rightarrow> fs_writeFile ''index.json'' (index_file rt (clock w3) bs) w3)))"
  by (simp add: saveState_def step_defs index_file_def after_snapshot_def
      split: prod.splits sum.splits)

lemma saveState_dir_fails:
  "ensureStorageDir w = (Inl e, w1) \<Longrightarrow> saveState rt mgr w = (Inl e, w1)"
  by (simp add: saveState_unfold)

lemma saveState_snapshot_fails:
  "ensureStorageDir w = (Inr u, w1) \<Longrightarrow> getAllBranches mgr (manager w1) = (Inl e, m1) \<Longrightarrow>
   saveState rt mgr w = (Inl e, after_snapshot w1 m1)"
  by (simp add: saveState_unfold)

lemma saveState_writes:
  assumes "ensureStorageDir w = (Inr u, w1)"
    and "getAllBranches mgr (manager w1) = (Inr bs, m1)"
  shows "\<exists>k\<le>length bs.
           events (snd (saveState rt mgr w)) =
             events w1 @ GetAllBranches # map (write_event rt) (take k bs)
             @ (if fst (writeBranches rt bs (after_snapshot w1 m1)) = Inr ()
                then [FsWriteFile ''index.json'' (index_file rt (clock w) bs)] else [])
           \<and> (fst (writeBranches rt bs (after_snapshot w1 m1)) = Inr () \<longrightarrow> k = length bs)"
proof -
  let ?w2 = "after_snapshot w1 m1"
  obtain r w3 where wb: "writeBranches rt bs ?w2 = (r, w3)"
    by (cases "writeBranches rt bs ?w2")
  from writeBranches_events [of bs rt ?w2] wb obtain k where k: "k \<le> length bs"
    and ev: "events w3 = events ?w2 @ map (write_event rt) (take k bs)"
    and ok: "r = Inr () \<longrightarrow> k = length bs"
    by auto
  have c1: "clock w1 = clock w"
    using ensureStorageDir_frame [of w] assms(1) by (simp add: same_process_def)
  have c3: "clock w3 = clock w"
    using writeBranches_frame [of ?w2 rt bs] wb c1
    by (simp add: same_process_def after_snapshot_def)
  show ?thesis
  proof (cases r)
    case (Inl e)
    with assms wb ev k show ?thesis
      by (intro exI [of _ k]) (simp add: saveState_unfold after_snapshot_def)
  next
    case (Inr u')
    with ok have kk: "k = length bs"
      by simp
    from Inr assms wb have "saveState rt mgr w
        = fs_writeFile ''index.json'' (index_file rt (clock w3) bs) w3"
      by (simp add: saveState_unfold)
    then have "events (snd (saveState rt mgr w))
        = events w3 @ [FsWriteFile ''index.json'' (index_file rt (clock w) bs)]"
      by (simp add: fs_writeFile_events c3)
    with Inr wb ev kk show ?thesis
      by (intro exI [of _ k]) (simp add: after_snapshot_def)
  qed
qed

lemma list_all_write_events: "list_all is_FsWriteFile (map (write_event rt) bs)"
  by (induction bs) (simp_all add: write_event_def)

lemma saveState_event_order:
  "\<exists>writes.
     events (snd (saveState rt mgr w)) =
       events w @ (if fst (fs_access w) = Inr () then [FsAccess] else [FsAccess, FsMkdir])
       @ (if fst (ensureStorageDir w) = Inr () then GetAllBranches # writes else [])
     \<and> list_all is_FsWriteFile writes"
proof -
  obtain r1 w1 where e: "ensureStorageDir w = (r1, w1)"
    by (cases "ensureStorageDir w")
  have ev1: "events w1 = events w
      @ (if fst (fs_access w) = Inr () then [FsAccess] else [FsAccess, FsMkdir])"
    using ensureStorageDir_events [of w] e by simp
  show ?thesis
  proof (cases r1)
    case (Inl err)
    with e ev1 show ?thesis
      by (intro exI [of _ "[]"]) (simp add: saveState_dir_fails)
  next
    case (Inr u)
    obtain r2 m1 where g: "getAllBranches mgr (manager w1) = (r2, m1)"
      by (cases "getAllBranches mgr (manager w1)")
    show ?thesis
    proof (cases r2)
      case (Inl err)
      with e g Inr ev1 show ?thesis
        by (intro exI [of _ "[]"]) (simp add: saveState_snapshot_fails after_snapshot_def)
    next
      case bs: (Inr bs)
      from saveState_writes [of w u w1 mgr bs m1 rt] e g Inr bs obtain k where
        ev: "events (snd (saveState rt mgr w)) =
             events w1 @ GetAllBranches # map (write_event rt) (take k bs)
             @ (if fst (writeBranches rt bs (after_snapshot w1 m1)) = Inr ()
                then [FsWriteFile ''index.json'' (index_file rt (clock w) bs)] else [])"
        by auto
      show ?thesis
        using e Inr ev ev1
        by (intro exI [of _ "map (write_event rt) (take k bs)
             @ (if fst (writeBranches rt bs (after_snapshot w1 m1)) = Inr ()
                then [FsWriteFile ''index.json'' (index_file rt (clock w) bs)] else [])"])
          (simp add: list_all_write_events)
    qed
  qed
qed

lemma saveState_manager_calls:
  "filter is_manager_call (events (snd (saveState rt mgr w))) =
     filter is_manager_call (events w)
     @ (if fst (ensureStorageDir w) = Inr () then [GetAllBranches] else [])"
proof -
  from saveState_event_order [of rt mgr w] obtain writes where
    ev: "events (snd (saveState rt mgr w)) =
       events w @ (if fst (fs_access w) = Inr () then [FsAccess] else [FsAccess, FsMkdir])
       @ (if fst (ensureStorageDir w) = Inr () then GetAllBranches # writes else [])"
    and wr: "list_all is_FsWriteFile writes"
    by blast
  have "filter is_manager_call writes = []"
    using wr by (induction writes) (auto elim: is_FsWriteFile.elims)
  then show ?thesis
    unfolding ev by simp
qed


lemma await_eq:
  "await sched k op w = (fst (op w), (snd (op w))\<lparr>manager := sched k (manager (snd (op w)))\<rparr>)"
  by (simp add: await_def split: prod.splits)

lemma await_idle: "await idle k op w = op w"
  by (simp add: await_eq idle_def)

lemma ensureStorageDir_async_eq:
  "ensureStorageDir_async sched w =
     (fst (ensureStorageDir w),
      (snd (ensureStorageDir w))
        \<lparr>manager := (if fst (fs_access w) = Inr () then sched 0 (manager w)
                      else sched 1 (sched 0 (manager w)))\<rparr>)"
  by (simp add: ensureStorageDir_async_def ensureStorageDir_def await_def fs_access_def
      fs_mkdir_def record_event_def split: option.splits)

lemma ensureStorageDir_async_events:
  "events (snd (ensureStorageDir_async sched w)) =
     events w @ (if fst (fs_access w) = Inr () then [FsAccess] else [FsAccess, FsMkdir])"
  using ensureStorageDir_events [of w] by (simp add: ensureStorageDir_async_eq)

lemma state_at_shift: "state_at sched k m (Suc i) = state_at sched (Suc k) (sched k m) i"
  by (induction i) simp_all

lemma await_writeFile:
  "events (snd (await sched k (fs_writeFile name d) w)) = events w @ [FsWriteFile name d]
   \<and> manager (snd (await sched k (fs_writeFile name d) w)) = sched k (manager w)
   \<and> same_process w (snd (await sched k (fs_writeFile name d) w))
   \<and> stderr (snd (await sched k (fs_writeFile name d) w)) = stderr w"
  using fs_writeFile_events [of name d w] fs_writeFile_frame [of w name d]
  by (simp add: await_eq same_process_def)

lemma writeBranches_async_events:
  "\<exists>j\<le>length refs.
     events (snd (writeBranches_async rt obj sched k refs w))
       = events w @ map (\<lambda>i. write_event rt (deref obj (state_at sched k (manager w) i) (refs ! i)))
                      [0..<j]
     \<and> (fst (writeBranches_async rt obj sched k refs w) = Inr () \<longrightarrow>
          j = length refs
          \<and> manager (snd (writeBranches_async rt obj sched k refs w))
              = state_at sched k (manager w) (length refs))"
proof (induction refs arbitrary: w k)
  case Nil
  then show ?case by simp
next
  case (Cons r refs)
  let ?b = "deref obj (manager w) r"
  let ?step = "await sched k (fs_writeFile (branchIdent ?b @ ''.json'')
                 (JsonText (JSON_stringify rt (js_of_branch ?b)))) w"
  let ?f = "\<lambda>i. write_event rt (deref obj (state_at sched k (manager w) i) ((r # refs) ! i))"
  obtain res wa where step: "?step = (res, wa)"
    by (cases ?step)
  have eva: "events wa = events w @ [write_event rt ?b]"
    and ma: "manager wa = sched k (manager w)"
    using await_writeFile [of sched k "branchIdent ?b @ ''.json''"
        "JsonText (JSON_stringify rt (js_of_branch ?b))" w] step
    by (simp_all add: write_event_def)
  have f0: "?f 0 = write_event rt ?b"
    by simp
  show ?case
  proof (cases res)
    case (Inl e)
    with step have run: "writeBranches_async rt obj sched k (r # refs) w = (Inl e, wa)"
      by simp
    have "map ?f [0..<1] = [write_event rt ?b]"
      by simp
    then show ?thesis
      unfolding run using eva by (intro exI [of _ 1]) simp
  next
    case (Inr u)
    with step have run: "writeBranches_async rt obj sched k (r # refs) w
        = writeBranches_async rt obj sched (Suc k) refs wa"
      by simp
    from Cons.IH [of "Suc k" wa] obtain j where j: "j \<le> length refs"
      and evj: "events (snd (writeBranches_async rt obj sched (Suc k) refs wa))
          = events wa @ map (\<lambda>i. write_event rt
                (deref obj (state_at sched (Suc k) (manager wa) i) (refs ! i))) [0..<j]"
      and ok: "fst (writeBranches_async rt obj sched (Suc k) refs wa) = Inr () \<longrightarrow>
          j = length refs
          \<and> manager (snd (writeBranches_async rt obj sched (Suc k) refs wa))
              = state_at sched (Suc k) (manager wa) (length refs)"
      by blast
    have sh: "\<And>i. state_at sched (Suc k) (manager wa) i = state_at sched k (manager w) (Suc i)"
      by (simp only: ma state_at_shift)
    have "map ?f [0..<Suc j] = ?f 0 # map (\<lambda>i. ?f (Suc i)) [0..<j]"
      by (rule map_upt_Suc)
    also have "\<dots> = write_event rt ?b
        # map (\<lambda>i. write_event rt (deref obj (state_at sched (Suc k) (manager wa) i) (refs ! i)))
            [0..<j]"
      by (simp only: f0 sh nth_Cons_Suc)
    finally have mp: "map ?f [0..<Suc j] = write_event rt ?b
        # map (\<lambda>i. write_event rt (deref obj (state_at sched (Suc k) (manager wa) i) (refs ! i)))
            [0..<j]" .
    have "events (snd (writeBranches_async rt obj sched (Suc k) refs wa))
        = events w @ map ?f [0..<Suc j]"
      unfolding mp evj eva by simp
    moreover have "fst (writeBranches_async rt obj sched (Suc k) refs wa) = Inr () \<longrightarrow>
        Suc j = length (r # refs)
        \<and> manager (snd (writeBranches_async rt obj sched (Suc k) refs wa))
            = state_at sched k (manager w) (length (r # refs))"
      using ok sh by simp
    moreover have "Suc j \<le> length (r # refs)"
      using j by simp
    ultimately show ?thesis
      unfolding run by (intro exI [of _ "Suc j"]) blast
  qed
qed

lemma writeBranches_async_frame:
  "same_process w (snd (writeBranches_async rt obj sched k refs w))
   \<and> stderr (snd (writeBranches_async rt obj sched k refs w)) = stderr w"
proof (induction refs arbitrary: w k)
  case Nil
  then show ?case by (simp add: same_process_def)
next
  case (Cons r refs)
  let ?b = "deref obj (manager w) r"
  let ?step = "await sched k (fs_writeFile (branchIdent ?b @ ''.json'')
                 (JsonText (JSON_stringify rt (js_of_branch ?b)))) w"
  obtain res wa where step: "?step = (res, wa)"
    by (cases ?step)
  have fa: "same_process w wa \<and> stderr wa = stderr w"
    using await_writeFile [of sched k "branchIdent ?b @ ''.json''"
        "JsonText (JSON_stringify rt (js_of_branch ?b))" w] step
    by simp
  show ?case
  proof (cases res)
    case (Inl e)
    with step fa show ?thesis by simp
  next
    case (Inr u)
    with step have run: "writeBranches_async rt obj sched k (r # refs) w
        = writeBranches_async rt obj sched (Suc k) refs wa"
      by simp
    show ?thesis
      unfolding run using Cons.IH [of wa "Suc k"] fa by (auto intro: same_process_trans)
  qed
qed

lemma writeBranches_async_idle:
  "writeBranches_async rt obj idle k refs w
     = writeBranches rt (map (deref obj (manager w)) refs) w"
proof (induction refs arbitrary: w k)
  case Nil
  then show ?case by simp
next
  case (Cons r refs)
  let ?b = "deref obj (manager w) r"
  let ?step = "fs_writeFile (branchIdent ?b @ ''.json'')
                 (JsonText (JSON_stringify rt (js_of_branch ?b))) w"
  obtain res wa where step: "?step = (res, wa)"
    by (cases ?step)
  have ma: "manager wa = manager w"
    using fs_writeFile_frame [of w "branchIdent ?b @ ''.json''"
        "JsonText (JSON_stringify rt (js_of_branch ?b))"] step
    by simp
  show ?case
  proof (cases res)
    case (Inl e)
    with step show ?thesis
      by (simp add: await_idle)
  next
    case (Inr u)
    with step Cons.IH [of "Suc k" wa] ma show ?thesis
      by (simp add: await_idle)
  qed
qed

lemma saveState_async_unfold:
  "saveState_async rt obj sched w =
     (case ensureStorageDir_async sched w of
        (Inl e, w1) \<Rightarrow> (Inl e, w1)
      | (Inr u, w1) \<Rightarrow>
          (case getAllBranches_refs obj (manager w1) of
             (Inl e, m1) \<Rightarrow> (Inl e, after_snapshot w1 m1)
           | (Inr refs, m1) \<Rightarrow>
               (case writeBranches_async rt obj sched 2 refs (after_snapshot w1 m1) of
                  (Inl e, w3) \<Rightarrow> (Inl e, w3)
                | (Inr u, w3) \<Rightarrow>
                    await sched (2 + length refs)
                      (fs_writeFile ''index.json''
                         (index_file rt (clock w3) (map (deref obj (manager w3)) refs))) w3)))"
  by (simp add: saveState_async_def step_defs index_file_def after_snapshot_def
      split: prod.splits sum.splits)

lemma list_all_writes_upt:
  "list_all is_FsWriteFile (map (\<lambda>i. write_event rt (f i)) [0..<j])"
  by (simp add: list_all_iff write_event_def)

lemma saveState_async_event_order:
  "\<exists>writes.
     events (snd (saveState_async rt obj sched w)) =
       events w @ (if fst (fs_access w) = Inr () then [FsAccess] else [FsAccess, FsMkdir])
       @ (if fst (ensureStorageDir_async sched w) = Inr () then GetAllBranches # writes else [])
     \<and> list_all is_FsWriteFile writes"
proof -
  obtain ra w1 where e: "ensureStorageDir_async sched w = (ra, w1)"
    by (cases "ensureStorageDir_async sched w")
  have ev1: "events w1 = events w
      @ (if fst (fs_access w) = Inr () then [FsAccess] else [FsAccess, FsMkdir])"
    using ensureStorageDir_async_events [of sched w] e by simp
  show ?thesis
  proof (cases ra)
    case (Inl err)
    with e ev1 show ?thesis
      by (intro exI [of _ "[]"]) (simp add: saveState_async_unfold)
  next
    case (Inr u)
    obtain rb m1 where g: "getAllBranches_refs obj (manager w1) = (rb, m1)"
      by (cases "getAllBranches_refs obj (manager w1)")
    show ?thesis
    proof (cases rb)
      case (Inl err)
      with e g Inr ev1 show ?thesis
        by (intro exI [of _ "[]"]) (simp add: saveState_async_unfold after_snapshot_def)
    next
      case refs: (Inr refs)
      let ?w2 = "after_snapshot w1 m1"
      obtain rc w3 where wb: "writeBranches_async rt obj sched 2 refs ?w2 = (rc, w3)"
        by (cases "writeBranches_async rt obj sched 2 refs ?w2")
      from writeBranches_async_events [of refs rt obj sched 2 ?w2] wb obtain j where
        ev3: "events w3 = events ?w2
            @ map (\<lambda>i. write_event rt (deref obj (state_at sched 2 (manager ?w2) i) (refs ! i)))
                [0..<j]"
        by auto
      let ?ws = "map (\<lambda>i. write_event rt (deref obj (state_at sched 2 (manager ?w2) i) (refs ! i)))
                [0..<j]"
      have wsl: "list_all is_FsWriteFile ?ws"
        by (rule list_all_writes_upt)
      show ?thesis
      proof (cases rc)
        case (Inl err)
        with e g Inr refs wb have "saveState_async rt obj sched w = (Inl err, w3)"
          by (simp add: saveState_async_unfold)
        then show ?thesis
          using e Inr ev1 ev3 wsl
          by (intro exI [of _ ?ws]) (simp add: after_snapshot_def)
      next
        case u3: (Inr u3)
        let ?ix = "index_file rt (clock w3) (map (deref obj (manager w3)) refs)"
        from e g Inr refs wb u3 have "saveState_async rt obj sched w
            = await sched (2 + length refs) (fs_writeFile ''index.json'' ?ix) w3"
          by (simp add: saveState_async_unfold)
        then have "events (snd (saveState_async rt obj sched w))
            = events w3 @ [FsWriteFile ''index.json'' ?ix]"
          using await_writeFile [of sched "2 + length refs" "''index.json''" ?ix w3] by simp
        then show ?thesis
          using e Inr ev1 ev3 wsl
          by (intro exI [of _ "?ws @ [FsWriteFile ''index.json'' ?ix]"])
            (simp add: after_snapshot_def)
      qed
    qed
  qed
qed

lemma saveState_async_writes:
  assumes E: "ensureStorageDir_async sched w = (Inr u, w1)"
    and G: "getAllBranches_refs obj (manager w1) = (Inr refs, m1)"
    and S: "fst (saveState_async rt obj sched w) = Inr ()"
  shows "filter is_FsWriteFile (events (snd (saveState_async rt obj sched w))) =
           filter is_FsWriteFile (events w)
           @ map (\<lambda>i. write_event rt (deref obj (state_at sched 2 m1 i) (refs ! i)))
               [0..<length refs]
           @ [FsWriteFile ''index.json''
                (index_file rt (clock w)
                   (map (deref obj (state_at sched 2 m1 (length refs))) refs))]"
proof -
  let ?w2 = "after_snapshot w1 m1"
  let ?ws = "map (\<lambda>i. write_event rt (deref obj (state_at sched 2 m1 i) (refs ! i)))
               [0..<length refs]"
  obtain rc w3 where wb: "writeBranches_async rt obj sched 2 refs ?w2 = (rc, w3)"
    by (cases "writeBranches_async rt obj sched 2 refs ?w2")
  from S E G wb obtain u3 where rc: "rc = Inr u3"
    by (cases rc) (simp_all add: saveState_async_unfold)
  have m2: "manager ?w2 = m1"
    by (simp add: after_snapshot_def)
  from writeBranches_async_events [of refs rt obj sched 2 ?w2] wb rc
  have ev3: "events w3 = events ?w2 @ ?ws"
    and m3: "manager w3 = state_at sched 2 m1 (length refs)"
    unfolding m2 by auto
  have "w1 = snd (ensureStorageDir_async sched w)"
    using E by simp
  then have "clock w1 = clock (snd (ensureStorageDir w))"
    by (simp add: ensureStorageDir_async_eq)
  then have c1: "clock w1 = clock w"
    using ensureStorageDir_frame [of w] by (simp add: same_process_def)
  have c3: "clock w3 = clock w"
    using writeBranches_async_frame [of ?w2 rt obj sched 2 refs] wb c1
    by (simp add: same_process_def after_snapshot_def)
  let ?ix = "index_file rt (clock w) (map (deref obj (state_at sched 2 m1 (length refs))) refs)"
  from E G wb rc have "saveState_async rt obj sched w
      = await sched (2 + length refs) (fs_writeFile ''index.json'' ?ix) w3"
    by (simp add: saveState_async_unfold c3 m3)
  then have ev: "events (snd (saveState_async rt obj sched w))
      = events w3 @ [FsWriteFile ''index.json'' ?ix]"
    using await_writeFile [of sched "2 + length refs" "''index.json''" ?ix w3] by simp
  have ev1: "filter is_FsWriteFile (events w1) = filter is_FsWriteFile (events w)"
    using ensureStorageDir_async_events [of sched w] E by simp
  have wr: "filter is_FsWriteFile ?ws = ?ws"
    using list_all_writes_upt [of rt "\<lambda>i. deref obj (state_at sched 2 m1 i) (refs ! i)"
        "length refs"]
    by (simp add: list_all_iff filter_id_conv)
  show ?thesis
    unfolding ev ev3 using ev1 wr by (simp add: after_snapshot_def)
qed

lemma writes_of_snapshot:
  assumes "\<forall>i\<le>length refs. \<forall>r\<in>set refs. deref obj (state_at sched k m i) r = deref obj m r"
  shows "map (\<lambda>i. write_event rt (deref obj (state_at sched k m i) (refs ! i))) [0..<length refs]
           = map (write_event rt) (map (deref obj m) refs)"
    and "map (deref obj (state_at sched k m (length refs))) refs = map (deref obj m) refs"
proof -
  have "map (\<lambda>i. write_event rt (deref obj (state_at sched k m i) (refs ! i))) [0..<length refs]
      = map (\<lambda>i. write_event rt (deref obj m (refs ! i))) [0..<length refs]"
    using assms by (intro map_cong) simp_all
  also have "\<dots> = map (\<lambda>r. write_event rt (deref obj m r)) (map (\<lambda>i. refs ! i) [0..<length refs])"
    by (simp add: o_def)
  also have "\<dots> = map (write_event rt) (map (deref obj m) refs)"
    by (simp add: map_nth o_def)
  finally show "map (\<lambda>i. write_event rt (deref obj (state_at sched k m i) (refs ! i)))
                  [0..<length refs]
           = map (write_event rt) (map (deref obj m) refs)" .
  show "map (deref obj (state_at sched k m (length refs))) refs = map (deref obj m) refs"
    using assms by (intro map_cong) simp_all
qed

lemma saveState_async_idle:
  assumes "getAllBranches mgr = values_of obj"
  shows "saveState_async rt obj idle w = saveState rt mgr w"
proof -
  have "manager (snd (ensureStorageDir w)) = manager w"
    using ensureStorageDir_frame [of w] by simp
  then have "(snd (ensureStorageDir w))\<lparr>manager := manager w\<rparr> = snd (ensureStorageDir w)"
    by (simp add: sym)
  then have e: "ensureStorageDir_async idle w = ensureStorageDir w"
    by (simp add: ensureStorageDir_async_eq idle_def)
  obtain ra w1 where e1: "ensureStorageDir w = (ra, w1)"
    by (cases "ensureStorageDir w")
  show ?thesis
  proof (cases ra)
    case (Inl err)
    with e e1 show ?thesis
      by (simp add: saveState_async_unfold saveState_unfold)
  next
    case (Inr u)
    obtain rb m1 where g: "getAllBranches_refs obj (manager w1) = (rb, m1)"
      by (cases "getAllBranches_refs obj (manager w1)")
    show ?thesis
    proof (cases rb)
      case (Inl err)
      with g have "getAllBranches mgr (manager w1) = (Inl err, m1)"
        by (simp add: assms values_of_def)
      with e e1 Inr Inl g show ?thesis
        by (simp add: saveState_async_unfold saveState_unfold)
    next
      case refs: (Inr refs)
      let ?w2 = "after_snapshot w1 m1"
      let ?bs = "map (deref obj m1) refs"
      from g refs have gv: "getAllBranches mgr (manager w1) = (Inr ?bs, m1)"
        by (simp add: assms values_of_def)
      have wbe: "writeBranches_async rt obj idle 2 refs ?w2 = writeBranches rt ?bs ?w2"
        using writeBranches_async_idle [of rt obj 2 refs ?w2] by (simp add: after_snapshot_def)
      obtain rc w3 where wb: "writeBranches rt ?bs ?w2 = (rc, w3)"
        by (cases "writeBranches rt ?bs ?w2")
      have m3: "manager w3 = m1"
        using writeBranches_frame [of ?w2 rt ?bs] wb by (simp add: after_snapshot_def)
      show ?thesis
        using e e1 Inr g refs gv wbe wb m3
        by (cases rc) (simp_all add: saveState_async_unfold saveState_unfold await_idle)
    qed
  qed
qed

text \<open>
  C6, as the code has it. \<open>saveState\<close> first awaits \<open>ensureStorageDir\<close>: \<open>fs.access\<close>, and
  \<open>fs.mkdir\<close> when that fails. Only if this succeeds does it call \<open>getAllBranches\<close>, once,
  and everything it does afterwards is a \<open>writeFile\<close>: the branches are read after the
  first asynchronous I/O, and before the first write. It copies nothing. When it
  succeeds, the file of the \<open>i\<close>-th branch holds that object as it was when its turn
  came, after the requests served during the writes before it, and the index is made
  from all the objects as they are after the last branch is written. So the files are
  those of the state \<open>getAllBranches\<close> saw if no request served during the writes changes
  an object it returned, as when it returns copies. A run during which no request is
  served is the sequential \<open>saveState\<close>.
\<close>

theorem saveState_reads_live_objects:
  "(\<exists>writes.
      events (snd (saveState_async rt obj sched w)) =
        events w @ (if fst (fs_access w) = Inr () then [FsAccess] else [FsAccess, FsMkdir])
        @ (if fst (ensureStorageDir_async sched w) = Inr () then GetAllBranches # writes else [])
      \<and> list_all is_FsWriteFile writes)
   \<and> (ensureStorageDir_async sched w = (Inr u, wa)
        \<and> getAllBranches_refs obj (manager wa) = (Inr refs, ma)
        \<and> fst (saveState_async rt obj sched w) = Inr () \<longrightarrow>
        filter is_FsWriteFile (events (snd (saveState_async rt obj sched w))) =
          filter is_FsWriteFile (events w)
          @ map (\<lambda>i. write_event rt (deref obj (state_at sched 2 ma i) (refs ! i)))
              [0..<length refs]
          @ [FsWriteFile ''index.json''
               (index_file rt (clock w)
                  (map (deref obj (state_at sched 2 ma (length refs))) refs))]
        \<and> ((\<forall>i\<le>length refs. \<forall>r\<in>set refs.
               deref obj (state_at sched 2 ma i) r = deref obj ma r) \<longrightarrow>
             filter is_FsWriteFile (events (snd (saveState_async rt obj sched w))) =
               filter is_FsWriteFile (events w)
               @ map (write_event rt) (map (deref obj ma) refs)
               @ [FsWriteFile ''index.json''
                    (index_file rt (clock w) (map (deref obj ma) refs))]))
   \<and> (getAllBranches mgr = values_of obj \<longrightarrow>
        saveState_async rt obj idle w = saveState rt mgr w)"
proof (intro conjI impI)
  show "\<exists>writes.
      events (snd (saveState_async rt obj sched w)) =
        events w @ (if fst (fs_access w) = Inr () then [FsAccess] else [FsAccess, FsMkdir])
        @ (if fst (ensureStorageDir_async sched w) = Inr () then GetAllBranches # writes else [])
      \<and> list_all is_FsWriteFile writes"
    by (rule saveState_async_event_order)
next
  assume "ensureStorageDir_async sched w = (Inr u, wa)
        \<and> getAllBranches_refs obj (manager wa) = (Inr refs, ma)
        \<and> fst (saveState_async rt obj sched w) = Inr ()"
  then have E: "ensureStorageDir_async sched w = (Inr u, wa)"
    and G: "getAllBranches_refs obj (manager wa) = (Inr refs, ma)"
    and S: "fst (saveState_async rt obj sched w) = Inr ()"
    by simp_all
  show W: "filter is_FsWriteFile (events (snd (saveState_async rt obj sched w))) =
          filter is_FsWriteFile (events w)
          @ map (\<lambda>i. write_event rt (deref obj (state_at sched 2 ma i) (refs ! i)))
              [0..<length refs]
          @ [FsWriteFile ''index.json''
               (index_file rt (clock w)
                  (map (deref obj (state_at sched 2 ma (length refs))) refs))]"
    by (rule saveState_async_writes [OF E G S])
  assume still: "\<forall>i\<le>length refs. \<forall>r\<in>set refs.
               deref obj (state_at sched 2 ma i) r = deref obj ma r"
  show "filter is_FsWriteFile (events (snd (saveState_async rt obj sched w))) =
               filter is_FsWriteFile (events w)
               @ map (write_event rt) (map (deref obj ma) refs)
               @ [FsWriteFile ''index.json''
                    (index_file rt (clock w) (map (deref obj ma) refs))]"
    unfolding W by (simp only: writes_of_snapshot [OF still])
next
  assume "getAllBranches mgr = values_of obj"
  then show "saveState_async rt obj idle w = saveState rt mgr w"
    by (rule saveState_async_idle)
qed

theorem saveState_reads_live_objects_witness:
  "filter is_FsWriteFile (events (snd (saveState_async sample_runtime sample_objects
       thought_during_first_write (fresh_world one_branch_store))))
     = [write_event sample_runtime
          (sample_branch ''main'' (1 / 2) [sample_thought ''t1'' ''main'' ''Investigate latency'']),
        FsWriteFile ''index.json'' (index_file sample_runtime 1000000000000
          [sample_branch ''main'' (1 / 2)
             [sample_thought ''t1'' ''main'' ''Investigate latency'',
              \<lparr>thoughtId = ''t1'', branchId = ''main'', content = ''GC pause'', timestamp = 0,
                thoughtRest = []\<rparr>]])]
   \<and> filter is_FsWriteFile (events (snd (saveState_async sample_runtime sample_objects idle
         (fresh_world one_branch_store))))
     = [write_event sample_runtime
          (sample_branch ''main'' (1 / 2) [sample_thought ''t1'' ''main'' ''Investigate latency'']),
        FsWriteFile ''index.json'' (index_file sample_runtime 1000000000000
          [sample_branch ''main'' (1 / 2)
             [sample_thought ''t1'' ''main'' ''Investigate latency'']])]
   \<and> saveState_async sample_runtime sample_objects idle (fresh_world one_branch_store)
     = saveState sample_runtime (sample_manager\<lparr>getAllBranches := values_of sample_objects\<rparr>)
         (fresh_world one_branch_store)"
proof -
  let ?w = "fresh_world one_branch_store"
  let ?wa = "?w\<lparr>manager := one_branch_store, events := [FsAccess, FsMkdir], dirPresent := True\<rparr>"
  let ?main = "sample_branch ''main'' (1 / 2) [sample_thought ''t1'' ''main'' ''Investigate latency'']"
  let ?main' = "sample_branch ''main'' (1 / 2)
             [sample_thought ''t1'' ''main'' ''Investigate latency'',
              \<lparr>thoughtId = ''t1'', branchId = ''main'', content = ''GC pause'', timestamp = 0,
                thoughtRest = []\<rparr>]"
  note T = saveState_reads_live_objects [where rt = sample_runtime and obj = sample_objects
      and w = ?w and u = "()" and wa = ?wa and refs = "[''main'']" and ma = one_branch_store]
  have E1: "ensureStorageDir_async thought_during_first_write ?w = (Inr (), ?wa)"
    by (simp add: ensureStorageDir_async_def await_def fs_defs fresh_world_def
        thought_during_first_write_def)
  have E2: "ensureStorageDir_async idle ?w = (Inr (), ?wa)"
    by (simp add: ensureStorageDir_async_def await_def fs_defs fresh_world_def idle_def)
  have G: "getAllBranches_refs sample_objects (manager ?wa) = (Inr [''main''], one_branch_store)"
    by (simp add: sample_objects_def one_branch_store_def sample_branch_def)
  have S1: "fst (saveState_async sample_runtime sample_objects thought_during_first_write ?w)
      = Inr ()"
    by (simp add: saveState_async_unfold ensureStorageDir_async_def await_def fs_defs
        fresh_world_def sample_objects_def thought_during_first_write_def after_snapshot_def
        one_branch_store_def sample_branch_def)
  have S2: "fst (saveState_async sample_runtime sample_objects idle ?w) = Inr ()"
    by (simp add: saveState_async_unfold ensureStorageDir_async_def await_def fs_defs
        fresh_world_def sample_objects_def idle_def after_snapshot_def one_branch_store_def
        sample_branch_def)
  have old: "filter is_FsWriteFile (events ?w) = [] \<and> clock ?w = 1000000000000"
    by (simp add: fresh_world_def)
  have d0: "deref sample_objects one_branch_store ''main'' = ?main"
    by (simp add: sample_objects_def one_branch_store_def sample_branch_def)
  have d1: "deref sample_objects (thought_during_first_write 2 one_branch_store) ''main'' = ?main'"
    by (simp add: sample_objects_def thought_during_first_write_def processThought_def
        processThought_try_def step_defs sample_manager_def sample_addThought_def find_branch_def
        fresh_world_def one_branch_store_def sample_branch_def Let_def)
  have still: "\<forall>i\<le>length [''main'']. \<forall>r\<in>set [''main''].
      deref sample_objects (state_at idle 2 one_branch_store i) r
        = deref sample_objects one_branch_store r"
    by (simp add: idle_def le_Suc_eq)
  have eq: "getAllBranches (sample_manager\<lparr>getAllBranches := values_of sample_objects\<rparr>)
      = values_of sample_objects"
    by simp
  from T [where sched = thought_during_first_write] E1 G S1
  have 1: "filter is_FsWriteFile (events (snd (saveState_async sample_runtime sample_objects
       thought_during_first_write ?w)))
     = filter is_FsWriteFile (events ?w)
       @ map (\<lambda>i. write_event sample_runtime
                (deref sample_objects (state_at thought_during_first_write 2 one_branch_store i)
                   ([''main''] ! i))) [0..<length [''main'']]
       @ [FsWriteFile ''index.json'' (index_file sample_runtime (clock ?w)
            (map (deref sample_objects
                    (state_at thought_during_first_write 2 one_branch_store (length [''main''])))
               [''main'']))]"
    by blast
  from T [where sched = idle] E2 G S2 still
  have 2: "filter is_FsWriteFile (events (snd (saveState_async sample_runtime sample_objects
       idle ?w)))
     = filter is_FsWriteFile (events ?w)
       @ map (write_event sample_runtime) (map (deref sample_objects one_branch_store) [''main''])
       @ [FsWriteFile ''index.json'' (index_file sample_runtime (clock ?w)
            (map (deref sample_objects one_branch_store) [''main'']))]"
    by blast
  from T [where sched = idle
      and mgr = "sample_manager\<lparr>getAllBranches := values_of sample_objects\<rparr>"] eq
  have 3: "saveState_async sample_runtime sample_objects idle ?w
     = saveState sample_runtime (sample_manager\<lparr>getAllBranches := values_of sample_objects\<rparr>) ?w"
    by blast
  show ?thesis
    unfolding 1 2 using 3 by (simp add: old d0 d1)
qed

text \<open>
  C6 as stated fails. On a fresh process \<open>fs.access\<close> and \<open>fs.mkdir\<close> have run before
  \<open>getAllBranches\<close> is called, so the branches are not read before any asynchronous I/O
  begins. And nothing is copied: with a manager that shares its objects, a thought
  processed while the file of branch \<open>main\<close> is being written is observed by the save in
  progress, which then succeeds with a file \<open>main.json\<close> of one thought and an index
  that counts two.
\<close>

theorem save_observes_mutation_counterexample:
  "map thoughts (branches one_branch_store)
     = [[sample_thought ''t1'' ''main'' ''Investigate latency'']]
   \<and> take 3 (events (snd (saveState_async sample_runtime sample_objects
        thought_during_first_write (fresh_world one_branch_store))))
       = [FsAccess, FsMkdir, GetAllBranches]
   \<and> fst (saveState_async sample_runtime sample_objects thought_during_first_write
        (fresh_world one_branch_store)) = Inr ()
   \<and> map_of (files (snd (saveState_async sample_runtime sample_objects
        thought_during_first_write (fresh_world one_branch_store)))) ''main.json''
       = Some (JsonText (JObj
           [(''id'', JStr ''main''), (''state'', JStr ''active''), (''priority'', JNum (1 / 2)),
            (''thoughts'', JArr [JObj
               [(''id'', JStr ''t1''), (''branchId'', JStr ''main''),
                (''content'', JStr ''Investigate latency''),
                (''timestamp'', JStr ''1970-01-01T00:00:00.000Z''),
                (''type'', JStr ''hypothesis'')]]),
            (''insights'', JArr []), (''crossRefs'', JArr [])]))
   \<and> map_of (files (snd (saveState_async sample_runtime sample_objects
        thought_during_first_write (fresh_world one_branch_store)))) ''index.json''
       = Some (JsonText (JArr
           [JObj [(''id'', JStr ''main''), (''state'', JStr ''active''), (''priority'', JNum (1 / 2)),
                  (''thoughtCount'', JNum 2),
                  (''lastUpdated'', JStr ''1970-01-01T00:00:00.000Z'')]]))"
  by (simp add: saveState_async_unfold ensureStorageDir_async_def await_def fs_defs
      fresh_world_def sample_objects_def thought_during_first_write_def processThought_def
      processThought_try_def step_defs sample_manager_def sample_addThought_def find_branch_def
      after_snapshot_def one_branch_store_def sample_branch_def sample_thought_def index_file_def
      index_entry_def js_of_branch_def js_of_thought_def sample_runtime_def Let_def)

lemma split_path_plain: "CHR ''/'' \<notin> set s \<Longrightarrow> split_path s = [s]"
  by (induction s) auto

lemma path_join_plain:
  "CHR ''/'' \<notin> set n \<Longrightarrow> n \<noteq> [] \<Longrightarrow> n \<noteq> ''.'' \<Longrightarrow> n \<noteq> ''..'' \<Longrightarrow>
   path_join dir n = dir @ [n]"
  by (simp add: path_join_def split_path_plain)

lemma place_of_entry: "place_of dir (dir @ [n]) = Entry n"
  by (simp add: place_of_def)

lemma json_name_proper:
  "a @ ''.json'' \<noteq> [] \<and> a @ ''.json'' \<noteq> ''.'' \<and> a @ ''.json'' \<noteq> ''..''"
  by (auto dest!: arg_cong [where f = length])

lemma map_of_put_file: "map_of (put_file n d fs) = (map_of fs)(n \<mapsto> d)"
  by (induction fs) (auto simp: fun_eq_iff)

lemma keys_put_file: "fst ` set (put_file n d fs) = insert n (fst ` set fs)"
  by (induction fs) auto

lemma listing_put_file:
  "sorted_wrt (<) (map fst fs) \<Longrightarrow> sorted_wrt (<) (map fst (put_file n d fs))"
proof (induction fs)
  case Nil
  then show ?case by simp
next
  case (Cons f fs)
  then show ?case
    by (auto simp: keys_put_file)
qed

lemma fs_writeFile_ok:
  "fst (fs_writeFile name d w) = Inr () \<Longrightarrow> CHR ''/'' \<notin> set name \<Longrightarrow>
   name \<noteq> [] \<and> name \<noteq> ''.'' \<and> name \<noteq> ''..'' \<Longrightarrow>
   files (snd (fs_writeFile name d w)) = put_file name d (files w)
   \<and> dirPresent (snd (fs_writeFile name d w))"
proof -
  assume ok: "fst (fs_writeFile name d w) = Inr ()" and plain: "CHR ''/'' \<notin> set name"
    and proper: "name \<noteq> [] \<and> name \<noteq> ''.'' \<and> name \<noteq> ''..''"
  have "last name \<in> set name"
    using proper by simp
  with plain have nl: "last name \<noteq> CHR ''/''"
    by metis
  have pl: "place_of (storageDir w) (path_join (storageDir w) name) = Entry name"
    using plain proper by (simp add: path_join_plain place_of_entry)
  show ?thesis
    using ok nl
    by (simp add: fs_writeFile_def record_event_def pl split: option.splits if_splits)
qed

lemma writeBranches_files:
  "fst (writeBranches rt bs w) = Inr () \<Longrightarrow>
   (\<forall>b\<in>set bs. CHR ''/'' \<notin> set (branchIdent b)) \<Longrightarrow>
   files (snd (writeBranches rt bs w))
     = foldl (\<lambda>fs b. put_file (fst (branch_file rt b)) (snd (branch_file rt b)) fs)
         (files w) bs"
proof (induction bs arbitrary: w)
  case Nil
  then show ?case by simp
next
  case (Cons b bs)
  let ?step = "fs_writeFile (branchIdent b @ ''.json'')
                 (JsonText (JSON_stringify rt (js_of_branch b))) w"
  obtain r w1 where step: "?step = (r, w1)"
    by (cases ?step)
  from Cons.prems(1) step obtain u where r: "r = Inr u"
    by (cases r) simp_all
  with step have run: "writeBranches rt (b # bs) w = writeBranches rt bs w1"
    by simp
  have plain: "CHR ''/'' \<notin> set (branchIdent b @ ''.json'')"
    using Cons.prems(2) by simp
  have "files w1 = put_file (branchIdent b @ ''.json'')
      (JsonText (JSON_stringify rt (js_of_branch b))) (files w)"
    using fs_writeFile_ok [OF _ plain json_name_proper,
        of "JsonText (JSON_stringify rt (js_of_branch b))" w] step r
    by simp
  moreover have "files (snd (writeBranches rt bs w1))
     = foldl (\<lambda>fs b. put_file (fst (branch_file rt b)) (snd (branch_file rt b)) fs)
         (files w1) bs"
    using Cons.IH [of w1] Cons.prems run by simp
  ultimately show ?case
    unfolding run by (simp add: branch_file_def)
qed

text \<open>The listing stays in the order of the names, whatever is written.\<close>

lemma fs_writeFile_listing:
  "sorted_wrt (<) (map fst (files w)) \<Longrightarrow>
   sorted_wrt (<) (map fst (files (snd (fs_writeFile name d w))))"
  by (simp add: fs_writeFile_def record_event_def listing_put_file
      split: option.splits place.splits)

lemma writeBranches_listing:
  "sorted_wrt (<) (map fst (files w)) \<Longrightarrow>
   sorted_wrt (<) (map fst (files (snd (writeBranches rt bs w))))"
proof (induction bs arbitrary: w)
  case Nil
  then show ?case by simp
next
  case (Cons b bs)
  let ?step = "fs_writeFile (branchIdent b @ ''.json'')
                 (JsonText (JSON_stringify rt (js_of_branch b))) w"
  obtain r w1 where step: "?step = (r, w1)"
    by (cases ?step)
  have l1: "sorted_wrt (<) (map fst (files w1))"
    using fs_writeFile_listing [OF Cons.prems, of "branchIdent b @ ''.json''"
        "JsonText (JSON_stringify rt (js_of_branch b))"] step
    by simp
  show ?case
  proof (cases r)
    case (Inl e)
    with step l1 show ?thesis by simp
  next
    case (Inr u)
    with step Cons.IH [OF l1] show ?thesis by simp
  qed
qed

lemma saveState_listing:
  assumes "sorted_wrt (<) (map fst (files w))"
  shows "sorted_wrt (<) (map fst (files (snd (saveState rt mgr w))))"
proof -
  obtain ra w1 where e: "ensureStorageDir w = (ra, w1)"
    by (cases "ensureStorageDir w")
  have l1: "sorted_wrt (<) (map fst (files w1))"
    using ensureStorageDir_frame [of w] e assms by simp
  show ?thesis
  proof (cases ra)
    case (Inl err)
    with e l1 show ?thesis
      by (simp add: saveState_dir_fails)
  next
    case (Inr u)
    obtain rb m1 where g: "getAllBranches mgr (manager w1) = (rb, m1)"
      by (cases "getAllBranches mgr (manager w1)")
    have l2: "sorted_wrt (<) (map fst (files (after_snapshot w1 m1)))"
      using l1 by (simp add: after_snapshot_def)
    show ?thesis
    proof (cases rb)
      case (Inl err)
      with e g Inr l2 show ?thesis
        by (simp add: saveState_snapshot_fails)
    next
      case bs: (Inr bs)
      obtain rc w3 where wb: "writeBranches rt bs (after_snapshot w1 m1) = (rc, w3)"
        by (cases "writeBranches rt bs (after_snapshot w1 m1)")
      have l3: "sorted_wrt (<) (map fst (files w3))"
        using writeBranches_listing [OF l2, of rt bs] wb by simp
      show ?thesis
      proof (cases rc)
        case (Inl err)
        with e g Inr bs wb l3 show ?thesis
          by (simp add: saveState_unfold)
      next
        case u3: (Inr u3)
        with e g Inr bs wb have "saveState rt mgr w
            = fs_writeFile ''index.json'' (index_file rt (clock w3) bs) w3"
          by (simp add: saveState_unfold)
        then show ?thesis
          using fs_writeFile_listing [OF l3] by simp
      qed
    qed
  qed
qed

lemma map_of_foldl_put_other:
  "k \<notin> f ` set bs \<Longrightarrow>
   map_of (foldl (\<lambda>fs b. put_file (f b) (g b) fs) al bs) k = map_of al k"
  by (induction bs arbitrary: al) (simp_all add: map_of_put_file)

lemma map_of_foldl_put_written:
  "distinct (map f bs) \<Longrightarrow> b \<in> set bs \<Longrightarrow>
   map_of (foldl (\<lambda>fs b. put_file (f b) (g b) fs) al bs) (f b) = Some (g b)"
proof (induction bs arbitrary: al)
  case Nil
  then show ?case by simp
next
  case (Cons a bs)
  show ?case
  proof (cases "b = a")
    case True
    with Cons.prems have "f a \<notin> f ` set bs"
      by simp
    then show ?thesis
      using True by (simp add: map_of_foldl_put_other map_of_put_file)
  next
    case False
    with Cons.prems Cons.IH show ?thesis
      by simp
  qed
qed

lemma keys_foldl_put:
  "fst ` set (foldl (\<lambda>fs b. put_file (f b) (g b) fs) al bs) = fst ` set al \<union> f ` set bs"
  by (induction bs arbitrary: al) (auto simp: keys_put_file)

lemma listing_foldl_put:
  "sorted_wrt (<) (map fst al) \<Longrightarrow>
   sorted_wrt (<) (map fst (foldl (\<lambda>fs b. put_file (f b) (g b) fs) al bs))"
  by (induction bs arbitrary: al) (simp_all add: listing_put_file)


lemma index_file_eq:
  "index_file rt now bs =
     JsonText (JArr (map (\<lambda>b. JObj
       [(''id'', JStr (branchIdent b)),
        (''state'', JStr (state b)),
        (''priority'', JNum (priority b)),
        (''thoughtCount'', JNum (of_nat (length (thoughts b)))),
        (''lastUpdated'', JStr (Date_toISOString rt
            (if thoughts b = [] then now else timestamp (last (thoughts b)))))]) bs))"
  by (simp add: index_file_def index_entry_def split: list.splits)

lemma saveState_succeeds:
  assumes E: "ensureStorageDir w = (Inr u, w1)"
    and G: "getAllBranches mgr (manager w1) = (Inr bs, m1)"
    and S: "fst (saveState rt mgr w) = Inr ()"
  shows "fst (writeBranches rt bs (after_snapshot w1 m1)) = Inr ()"
    and "saveState rt mgr w =
           fs_writeFile ''index.json'' (index_file rt (clock w) bs)
             (snd (writeBranches rt bs (after_snapshot w1 m1)))"
proof -
  let ?w2 = "after_snapshot w1 m1"
  obtain r w3 where wb: "writeBranches rt bs ?w2 = (r, w3)"
    by (cases "writeBranches rt bs ?w2")
  have c1: "clock w1 = clock w"
    using ensureStorageDir_frame [of w] E by (simp add: same_process_def)
  have c3: "clock w3 = clock w"
    using writeBranches_frame [of ?w2 rt bs] wb c1
    by (simp add: same_process_def after_snapshot_def)
  from S E G wb obtain u' where r: "r = Inr u'"
    by (cases r) (simp_all add: saveState_unfold)
  with wb show "fst (writeBranches rt bs ?w2) = Inr ()"
    by simp
  from r E G wb c3 show "saveState rt mgr w =
           fs_writeFile ''index.json'' (index_file rt (clock w) bs)
             (snd (writeBranches rt bs ?w2))"
    by (simp add: saveState_unfold)
qed

lemma saveState_file_writes:
  assumes E: "ensureStorageDir w = (Inr u, w1)"
    and G: "getAllBranches mgr (manager w1) = (Inr bs, m1)"
    and S: "fst (saveState rt mgr w) = Inr ()"
  shows "filter is_FsWriteFile (events (snd (saveState rt mgr w))) =
           filter is_FsWriteFile (events w) @ map (write_event rt) bs
           @ [FsWriteFile ''index.json'' (index_file rt (clock w) bs)]"
proof -
  from saveState_writes [OF E G, of rt] obtain k where
    ev: "events (snd (saveState rt mgr w)) =
             events w1 @ GetAllBranches # map (write_event rt) (take k bs)
             @ (if fst (writeBranches rt bs (after_snapshot w1 m1)) = Inr ()
                then [FsWriteFile ''index.json'' (index_file rt (clock w) bs)] else [])"
    and k: "fst (writeBranches rt bs (after_snapshot w1 m1)) = Inr () \<longrightarrow> k = length bs"
    by blast
  have ok: "fst (writeBranches rt bs (after_snapshot w1 m1)) = Inr ()"
    by (rule saveState_succeeds(1) [OF E G S])
  have ev1: "filter is_FsWriteFile (events w1) = filter is_FsWriteFile (events w)"
    using ensureStorageDir_events [of w] E by simp
  have wr: "filter is_FsWriteFile (map (write_event rt) bs) = map (write_event rt) bs"
    by (induction bs) (simp_all add: write_event_def)
  show ?thesis
    unfolding ev using ok k ev1 wr by simp
qed

lemma json_name_inj: "a @ ''.json'' = b @ ''.json'' \<longleftrightarrow> a = b"
  by simp

lemma json_name_index: "a @ ''.json'' = ''index.json'' \<longleftrightarrow> a = ''index''"
  using json_name_inj [of a "''index''"] by simp

lemma saveState_files:
  assumes E: "ensureStorageDir w = (Inr u, w1)"
    and G: "getAllBranches mgr (manager w1) = (Inr bs, m1)"
    and S: "fst (saveState rt mgr w) = Inr ()"
    and plain: "\<forall>b\<in>set bs. CHR ''/'' \<notin> set (branchIdent b)"
  shows "files (snd (saveState rt mgr w)) =
           put_file ''index.json'' (index_file rt (clock w) bs)
             (foldl (\<lambda>fs b. put_file (fst (branch_file rt b)) (snd (branch_file rt b)) fs)
                (files w) bs)"
proof -
  let ?w2 = "after_snapshot w1 m1"
  let ?w3 = "snd (writeBranches rt bs ?w2)"
  have ok: "fst (writeBranches rt bs ?w2) = Inr ()"
    by (rule saveState_succeeds(1) [OF E G S])
  have run: "saveState rt mgr w = fs_writeFile ''index.json'' (index_file rt (clock w) bs) ?w3"
    by (rule saveState_succeeds(2) [OF E G S])
  have f2: "files ?w2 = files w"
    using ensureStorageDir_frame [of w] E by (simp add: after_snapshot_def)
  have f3: "files ?w3 =
      foldl (\<lambda>fs b. put_file (fst (branch_file rt b)) (snd (branch_file rt b)) fs)
        (files w) bs"
    using writeBranches_files [OF ok plain] f2 by simp
  have "fst (fs_writeFile ''index.json'' (index_file rt (clock w) bs) ?w3) = Inr ()"
    using S run by simp
  then have "files (snd (fs_writeFile ''index.json'' (index_file rt (clock w) bs) ?w3))
      = put_file ''index.json'' (index_file rt (clock w) bs) (files ?w3)"
    using fs_writeFile_ok [of "''index.json''" "index_file rt (clock w) bs" ?w3] by simp
  then show ?thesis
    unfolding run f3 by simp
qed

text \<open>
  C4, as the code has it. A \<open>saveState\<close> that succeeds has made one \<open>writeFile\<close> per
  branch that \<open>getAllBranches\<close> returned, in that order, of the JSON of the whole branch
  under \<open>id.json\<close>, and then one of \<open>index.json\<close>. The index holds, per branch,
  exactly \<open>id\<close>, \<open>state\<close>, \<open>priority\<close>, \<open>thoughtCount\<close> (the number of thoughts) and
  \<open>lastUpdated\<close>: the timestamp of the last thought, or the time of the save when the
  branch has no thought. When the ids are distinct, have no \<open>/\<close> and none is \<open>index\<close>,
  the directory then holds each branch's file and the index.
\<close>

theorem saveState_layout:
  assumes "ensureStorageDir w = (Inr u, w1)"
    and "getAllBranches mgr (manager w1) = (Inr bs, m1)"
    and "fst (saveState rt mgr w) = Inr ()"
  shows "filter is_FsWriteFile (events (snd (saveState rt mgr w))) =
           filter is_FsWriteFile (events w) @ map (write_event rt) bs
           @ [FsWriteFile ''index.json'' (index_file rt (clock w) bs)]
       \<and> index_file rt (clock w) bs =
           JsonText (JArr (map (\<lambda>b. JObj
             [(''id'', JStr (branchIdent b)),
              (''state'', JStr (state b)),
              (''priority'', JNum (priority b)),
              (''thoughtCount'', JNum (of_nat (length (thoughts b)))),
              (''lastUpdated'', JStr (Date_toISOString rt
                  (if thoughts b = [] then clock w else timestamp (last (thoughts b)))))]) bs))
       \<and> (distinct (map branchIdent bs)
            \<and> (\<forall>b\<in>set bs. CHR ''/'' \<notin> set (branchIdent b) \<and> branchIdent b \<noteq> ''index'') \<longrightarrow>
            (\<forall>b\<in>set bs. map_of (files (snd (saveState rt mgr w))) (branchIdent b @ ''.json'')
                           = Some (JsonText (JSON_stringify rt (js_of_branch b))))
            \<and> map_of (files (snd (saveState rt mgr w))) ''index.json''
                = Some (index_file rt (clock w) bs))"
proof (intro conjI impI ballI)
  show "filter is_FsWriteFile (events (snd (saveState rt mgr w))) =
           filter is_FsWriteFile (events w) @ map (write_event rt) bs
           @ [FsWriteFile ''index.json'' (index_file rt (clock w) bs)]"
    by (rule saveState_file_writes [OF assms])
  show "index_file rt (clock w) bs =
           JsonText (JArr (map (\<lambda>b. JObj
             [(''id'', JStr (branchIdent b)),
              (''state'', JStr (state b)),
              (''priority'', JNum (priority b)),
              (''thoughtCount'', JNum (of_nat (length (thoughts b)))),
              (''lastUpdated'', JStr (Date_toISOString rt
                  (if thoughts b = [] then clock w else timestamp (last (thoughts b)))))]) bs))"
    by (rule index_file_eq)
next
  assume h: "distinct (map branchIdent bs)
            \<and> (\<forall>b\<in>set bs. CHR ''/'' \<notin> set (branchIdent b) \<and> branchIdent b \<noteq> ''index'')"
  then have plain: "\<forall>b\<in>set bs. CHR ''/'' \<notin> set (branchIdent b)"
    by blast
  have fs: "files (snd (saveState rt mgr w)) =
           put_file ''index.json'' (index_file rt (clock w) bs)
             (foldl (\<lambda>fs b. put_file (fst (branch_file rt b)) (snd (branch_file rt b)) fs)
                (files w) bs)"
    by (rule saveState_files [OF assms plain])
  show "map_of (files (snd (saveState rt mgr w))) ''index.json''
                = Some (index_file rt (clock w) bs)"
    unfolding fs by (simp add: map_of_put_file)
  fix b
  assume b: "b \<in> set bs"
  with h have ni: "branchIdent b @ ''.json'' \<noteq> ''index.json''"
    using json_name_index [of "branchIdent b"] by blast
  have d: "distinct (map (\<lambda>b. fst (branch_file rt b)) bs)"
    using h by (simp add: branch_file_def distinct_map inj_on_def)
  have "map_of (foldl (\<lambda>fs b. put_file (fst (branch_file rt b)) (snd (branch_file rt b)) fs)
                (files w) bs) (fst (branch_file rt b)) = Some (snd (branch_file rt b))"
    by (rule map_of_foldl_put_written [OF d b])
  then show "map_of (files (snd (saveState rt mgr w))) (branchIdent b @ ''.json'')
                           = Some (JsonText (JSON_stringify rt (js_of_branch b)))"
    unfolding fs using ni by (simp add: map_of_put_file branch_file_def)
qed


theorem saveState_layout_witness:
  "fst (saveState sample_runtime sample_manager (fresh_world (two_branch_store (1 / 10) (9 / 10))))
     = Inr ()
   \<and> map fst (files (snd (saveState sample_runtime sample_manager
        (fresh_world (two_branch_store (1 / 10) (9 / 10)))))) = [''gc.json'', ''index.json'', ''main.json'']
   \<and> map_of (files (snd (saveState sample_runtime sample_manager
        (fresh_world (two_branch_store (1 / 10) (9 / 10)))))) ''index.json''
       = Some (JsonText (JArr
           [JObj [(''id'', JStr ''main''), (''state'', JStr ''active''), (''priority'', JNum (1 / 10)),
                  (''thoughtCount'', JNum 1), (''lastUpdated'', JStr ''1970-01-01T00:00:00.000Z'')],
            JObj [(''id'', JStr ''gc''), (''state'', JStr ''active''), (''priority'', JNum (9 / 10)),
                  (''thoughtCount'', JNum 0), (''lastUpdated'', JStr ''2001-09-09T01:46:40.000Z'')]]))
   \<and> map_of (files (snd (saveState sample_runtime sample_manager
        (fresh_world (two_branch_store (1 / 10) (9 / 10)))))) ''gc.json''
       = Some (JsonText (JObj
           [(''id'', JStr ''gc''), (''state'', JStr ''active''), (''priority'', JNum (9 / 10)),
            (''thoughts'', JArr []), (''insights'', JArr []), (''crossRefs'', JArr [])]))"
proof -
  let ?s = "two_branch_store (1 / 10) (9 / 10)"
  let ?w = "fresh_world ?s"
  let ?w1 = "?w\<lparr>events := [FsAccess, FsMkdir], dirPresent := True\<rparr>"
  have E: "ensureStorageDir ?w = (Inr (), ?w1)"
    by (simp add: fs_defs fresh_world_def)
  have G: "getAllBranches sample_manager (manager ?w1) = (Inr (branches ?s), ?s)"
    by (simp add: sample_manager_def fresh_world_def)
  have S: "fst (saveState sample_runtime sample_manager ?w) = Inr ()"
    by (simp add: saveState_unfold fs_defs fresh_world_def sample_manager_def
        after_snapshot_def two_branch_store_def sample_branch_def)
  have names: "map fst (files (snd (saveState sample_runtime sample_manager ?w)))
      = [''gc.json'', ''index.json'', ''main.json'']"
    by (simp add: saveState_unfold fs_defs fresh_world_def sample_manager_def
        after_snapshot_def two_branch_store_def sample_branch_def)
  have D: "distinct (map branchIdent (branches ?s))
      \<and> (\<forall>b\<in>set (branches ?s). CHR ''/'' \<notin> set (branchIdent b) \<and> branchIdent b \<noteq> ''index'')"
    by (simp add: two_branch_store_def sample_branch_def)
  have gc: "sample_branch ''gc'' (9 / 10) [] \<in> set (branches ?s)"
    by (simp add: two_branch_store_def)
  note L = saveState_layout [OF E G S]
  from L D have idx: "map_of (files (snd (saveState sample_runtime sample_manager ?w))) ''index.json''
      = Some (index_file sample_runtime (clock ?w) (branches ?s))"
    by blast
  from L D gc have f: "map_of (files (snd (saveState sample_runtime sample_manager ?w)))
      (branchIdent (sample_branch ''gc'' (9 / 10) []) @ ''.json'')
      = Some (JsonText (JSON_stringify sample_runtime (js_of_branch (sample_branch ''gc'' (9 / 10) []))))"
    by blast
  have i: "index_file sample_runtime (clock ?w) (branches ?s) = JsonText (JArr
           [JObj [(''id'', JStr ''main''), (''state'', JStr ''active''), (''priority'', JNum (1 / 10)),
                  (''thoughtCount'', JNum 1), (''lastUpdated'', JStr ''1970-01-01T00:00:00.000Z'')],
            JObj [(''id'', JStr ''gc''), (''state'', JStr ''active''), (''priority'', JNum (9 / 10)),
                  (''thoughtCount'', JNum 0), (''lastUpdated'', JStr ''2001-09-09T01:46:40.000Z'')]])"
    by (simp add: index_file_eq two_branch_store_def sample_branch_def sample_thought_def
        sample_runtime_def fresh_world_def)
  have j: "JSON_stringify sample_runtime (js_of_branch (sample_branch ''gc'' (9 / 10) []))
      = JObj [(''id'', JStr ''gc''), (''state'', JStr ''active''), (''priority'', JNum (9 / 10)),
            (''thoughts'', JArr []), (''insights'', JArr []), (''crossRefs'', JArr [])]"
    by (simp add: js_of_branch_def sample_branch_def)
  from S names idx f show ?thesis
    unfolding i j by (simp add: sample_branch_def)
qed

text \<open>
  C4 as stated fails: for a branch with no thought, \<open>lastUpdated\<close> is no thought's
  timestamp but the time of the save (\<open>|| new Date()\<close>).
\<close>

theorem index_lastUpdated_counterexample:
  "map thoughts (branches gc_store) = [[]]
   \<and> clock (fresh_world gc_store) = 1000000000000
   \<and> Date_toISOString sample_runtime 1000000000000 = ''2001-09-09T01:46:40.000Z''
   \<and> map_of (files (snd (saveState sample_runtime sample_manager (fresh_world gc_store))))
        ''index.json''
       = Some (JsonText (JArr
           [JObj [(''id'', JStr ''gc''), (''state'', JStr ''active''), (''priority'', JNum (9 / 10)),
                  (''thoughtCount'', JNum 0),
                  (''lastUpdated'', JStr ''2001-09-09T01:46:40.000Z'')]]))"
  by (simp add: saveState_unfold fs_defs fresh_world_def sample_manager_def after_snapshot_def
      gc_store_def sample_branch_def index_file_def index_entry_def js_of_branch_def
      sample_runtime_def)

lemma loadFile_unfold:
  "loadFile rt mgr f w =
     (case fs_readFile f w of
        (Inl e, w1) \<Rightarrow> (Inl e, w1)
      | (Inr d, w1) \<Rightarrow>
          (case JSON_parse d of
             Inl e \<Rightarrow> (Inl e, w1)
           | Inr v \<Rightarrow>
               (case rehydrate rt v of
                  Inl e \<Rightarrow> (Inl e, w1)
                | Inr b \<Rightarrow> call (ReconstructBranch b) (reconstructBranch mgr b) w1)))"
  by (simp add: loadFile_def step_defs split: prod.splits sum.splits)

lemma fs_readFile_cases:
  "fs_readFile f w = (r, w1) \<Longrightarrow>
   w1 = record_event (FsReadFile f) w
   \<and> (case r of Inr d \<Rightarrow> map_of (files w) f = Some d \<and> fault w (OpReadFile f) = None
       | Inl e \<Rightarrow> True)
   \<and> (fault w (OpReadFile f) \<noteq> None \<longrightarrow> (\<exists>e. r = Inl e))"
  by (auto simp: fs_readFile_def split: option.splits)

lemma loadFile_facts:
  "\<exists>bs. length bs \<le> 1
     \<and> filter is_manager_call (events (snd (loadFile rt mgr f w)))
         = filter is_manager_call (events w) @ map ReconstructBranch bs
     \<and> map (stored_branch rt w) (take (length bs) [f]) = map Some bs
     \<and> (fst (loadFile rt mgr f w) = Inr () \<longrightarrow> length bs = 1)
     \<and> (fault w (OpReadFile f) \<noteq> None \<longrightarrow> fst (loadFile rt mgr f w) \<noteq> Inr ())
     \<and> same_disk w (snd (loadFile rt mgr f w))
     \<and> same_process w (snd (loadFile rt mgr f w))"
proof -
  obtain r w1 where rd: "fs_readFile f w = (r, w1)"
    by (cases "fs_readFile f w")
  note c = fs_readFile_cases [OF rd]
  have w1: "w1 = record_event (FsReadFile f) w"
    using c by simp
  have none: "filter is_manager_call (events w1) = filter is_manager_call (events w)
      \<and> same_disk w w1 \<and> same_process w w1"
    by (simp add: w1 record_event_def same_disk_def same_process_def)
  show ?thesis
  proof (cases r)
    case (Inl e)
    with rd none show ?thesis
      by (intro exI [of _ "[]"]) (simp add: loadFile_unfold)
  next
    case (Inr d)
    with c have d: "map_of (files w) f = Some d" and nf: "fault w (OpReadFile f) = None"
      by simp_all
    show ?thesis
    proof (cases "JSON_parse d")
      case (Inl e)
      with rd Inr none nf show ?thesis
        by (intro exI [of _ "[]"]) (simp add: loadFile_unfold)
    next
      case v: (Inr v)
      show ?thesis
      proof (cases "rehydrate rt v")
        case (Inl e)
        with rd Inr v none nf show ?thesis
          by (intro exI [of _ "[]"]) (simp add: loadFile_unfold)
      next
        case b: (Inr b)
        have sb: "stored_branch rt w f = Some b"
          by (simp add: stored_branch_def d v b)
        obtain r2 m2 where rb: "reconstructBranch mgr b (manager w1) = (r2, m2)"
          by (cases "reconstructBranch mgr b (manager w1)")
        have run: "loadFile rt mgr f w
            = (r2, w1\<lparr>manager := m2, events := events w1 @ [ReconstructBranch b]\<rparr>)"
          using rd Inr v b rb by (simp add: loadFile_unfold call_def)
        show ?thesis
          unfolding run using none sb nf
          by (intro exI [of _ "[b]"]) (simp add: same_disk_def same_process_def)
      qed
    qed
  qed
qed

lemma stored_branch_same_disk: "same_disk w w' \<Longrightarrow> stored_branch rt w' = stored_branch rt w"
  by (rule ext) (simp add: stored_branch_def same_disk_def)

lemma same_disk_refl: "same_disk w w"
  by (simp add: same_disk_def)

lemma same_disk_trans: "same_disk a b \<Longrightarrow> same_disk b c \<Longrightarrow> same_disk a c"
  by (simp add: same_disk_def)


lemma loadFiles_facts:
  "\<exists>bs. filter is_manager_call (events (snd (loadFiles rt mgr fs w)))
         = filter is_manager_call (events w) @ map ReconstructBranch bs
     \<and> map (stored_branch rt w) (take (length bs) (filter is_branch_file fs)) = map Some bs
     \<and> (fst (loadFiles rt mgr fs w) = Inr () \<longrightarrow> length bs = length (filter is_branch_file fs))
     \<and> ((\<exists>f\<in>set fs. is_branch_file f \<and> fault w (OpReadFile f) \<noteq> None) \<longrightarrow>
          fst (loadFiles rt mgr fs w) \<noteq> Inr ())
     \<and> same_disk w (snd (loadFiles rt mgr fs w))
     \<and> same_process w (snd (loadFiles rt mgr fs w))"
proof (induction fs arbitrary: w)
  case Nil
  show ?case
    by (intro exI [of _ "[]"]) (simp add: same_disk_refl same_process_refl)
next
  case (Cons f fs)
  show ?case
  proof (cases "is_branch_file f")
    case False
    then have run: "loadFiles rt mgr (f # fs) w = loadFiles rt mgr fs w"
      by (simp split: prod.splits sum.splits)
    from Cons.IH [of w] obtain bs where
      "filter is_manager_call (events (snd (loadFiles rt mgr fs w)))
         = filter is_manager_call (events w) @ map ReconstructBranch bs
       \<and> map (stored_branch rt w) (take (length bs) (filter is_branch_file fs)) = map Some bs
       \<and> (fst (loadFiles rt mgr fs w) = Inr () \<longrightarrow> length bs = length (filter is_branch_file fs))
       \<and> ((\<exists>f\<in>set fs. is_branch_file f \<and> fault w (OpReadFile f) \<noteq> None) \<longrightarrow>
            fst (loadFiles rt mgr fs w) \<noteq> Inr ())
       \<and> same_disk w (snd (loadFiles rt mgr fs w))
       \<and> same_process w (snd (loadFiles rt mgr fs w))"
      by blast
    with False show ?thesis
      unfolding run by (intro exI [of _ bs]) auto
  next
    case True
    obtain r w1 where lf: "loadFile rt mgr f w = (r, w1)"
      by (cases "loadFile rt mgr f w")
    from loadFile_facts [of rt mgr f w] lf obtain bs1 where
      l1: "length bs1 \<le> 1"
      and ev1: "filter is_manager_call (events w1)
         = filter is_manager_call (events w) @ map ReconstructBranch bs1"
      and st1: "map (stored_branch rt w) (take (length bs1) [f]) = map Some bs1"
      and ok1: "r = Inr () \<longrightarrow> length bs1 = 1"
      and ft1: "fault w (OpReadFile f) \<noteq> None \<longrightarrow> r \<noteq> Inr ()"
      and d1: "same_disk w w1" and p1: "same_process w w1"
      by auto
    have tk: "take (length bs1) (f # filter is_branch_file fs) = take (length bs1) [f]"
      using l1 by (cases bs1) simp_all
    show ?thesis
    proof (cases r)
      case (Inl e)
      with True lf have run: "loadFiles rt mgr (f # fs) w = (Inl e, w1)"
        by simp
      show ?thesis
        unfolding run using ev1 st1 tk d1 p1 True
        by (intro exI [of _ bs1]) simp
    next
      case (Inr u)
      with True lf have run: "loadFiles rt mgr (f # fs) w = loadFiles rt mgr fs w1"
        by simp
      from Inr ok1 l1 obtain b where bs1: "bs1 = [b]"
        by (cases bs1) auto
      from st1 bs1 have sb: "stored_branch rt w f = Some b"
        by simp
      from Inr ft1 have nf: "fault w (OpReadFile f) = None"
        by auto
      have sw: "stored_branch rt w1 = stored_branch rt w"
        by (rule stored_branch_same_disk [OF d1])
      have fw: "fault w1 = fault w"
        using d1 by (simp add: same_disk_def)
      from Cons.IH [of w1] obtain bs2 where
        ev2: "filter is_manager_call (events (snd (loadFiles rt mgr fs w1)))
           = filter is_manager_call (events w1) @ map ReconstructBranch bs2"
        and st2: "map (stored_branch rt w1) (take (length bs2) (filter is_branch_file fs))
           = map Some bs2"
        and ok2: "fst (loadFiles rt mgr fs w1) = Inr () \<longrightarrow>
           length bs2 = length (filter is_branch_file fs)"
        and ft2: "(\<exists>f\<in>set fs. is_branch_file f \<and> fault w1 (OpReadFile f) \<noteq> None) \<longrightarrow>
            fst (loadFiles rt mgr fs w1) \<noteq> Inr ()"
        and d2: "same_disk w1 (snd (loadFiles rt mgr fs w1))"
        and p2: "same_process w1 (snd (loadFiles rt mgr fs w1))"
        by blast
      show ?thesis
        unfolding run
        using ev1 ev2 st2 ok2 ft2 sb nf True bs1 sw fw
          same_disk_trans [OF d1 d2] same_process_trans [OF p1 p2]
        by (intro exI [of _ "b # bs2"]) auto
    qed
  qed
qed


lemma loadState_try_unfold:
  "loadState_try rt mgr w =
     (case ensureStorageDir w of
        (Inl e, w1) \<Rightarrow> (Inl e, w1)
      | (Inr u, w1) \<Rightarrow>
          (case fs_readdir w1 of
             (Inl e, w2) \<Rightarrow> (Inl e, w2)
           | (Inr names, w2) \<Rightarrow> loadFiles rt mgr names w2))"
  by (simp add: loadState_try_def step_defs split: prod.splits sum.splits)

lemma ensureStorageDir_cases:
  "ensureStorageDir w = (r, w1) \<Longrightarrow>
   files w1 = files w \<and> fault w1 = fault w \<and> same_process w w1
   \<and> filter is_manager_call (events w1) = filter is_manager_call (events w)
   \<and> ((\<not> dirPresent w \<or> fault w OpAccess \<noteq> None) \<and> fault w OpMkdir \<noteq> None \<longrightarrow> r \<noteq> Inr ())"
  by (auto simp: ensureStorageDir_def fs_access_def fs_mkdir_def record_event_def
      same_process_def split: option.splits if_splits)

lemma fs_readdir_cases:
  "fs_readdir w = (r, w1) \<Longrightarrow>
   w1 = record_event FsReaddir w
   \<and> (case r of Inr names \<Rightarrow> names = map fst (files w) | Inl e \<Rightarrow> True)
   \<and> (fault w OpReaddir \<noteq> None \<longrightarrow> (\<exists>e. r = Inl e))"
  by (auto simp: fs_readdir_def split: option.splits if_splits)

lemma loadState_try_facts:
  "\<exists>bs. filter is_manager_call (events (snd (loadState_try rt mgr w)))
         = filter is_manager_call (events w) @ map ReconstructBranch bs
     \<and> map (stored_branch rt w) (take (length bs) (filter is_branch_file (map fst (files w))))
         = map Some bs
     \<and> (fst (loadState_try rt mgr w) = Inr () \<longrightarrow>
          length bs = length (filter is_branch_file (map fst (files w))))
     \<and> (load_io_failure w \<longrightarrow> fst (loadState_try rt mgr w) \<noteq> Inr ())
     \<and> same_process w (snd (loadState_try rt mgr w))
     \<and> files (snd (loadState_try rt mgr w)) = files w"
proof -
  obtain r1 w1 where e: "ensureStorageDir w = (r1, w1)"
    by (cases "ensureStorageDir w")
  note c1 = ensureStorageDir_cases [OF e]
  show ?thesis
  proof (cases r1)
    case (Inl err)
    with e c1 show ?thesis
      by (intro exI [of _ "[]"]) (simp add: loadState_try_unfold)
  next
    case (Inr u)
    obtain r2 w2 where rd: "fs_readdir w1 = (r2, w2)"
      by (cases "fs_readdir w1")
    note c2 = fs_readdir_cases [OF rd]
    have w2: "files w2 = files w \<and> fault w2 = fault w \<and> same_process w w2
        \<and> filter is_manager_call (events w2) = filter is_manager_call (events w)"
      using c1 c2 by (simp add: record_event_def same_process_def)
    show ?thesis
    proof (cases r2)
      case (Inl err)
      with e Inr rd w2 show ?thesis
        by (intro exI [of _ "[]"]) (simp add: loadState_try_unfold)
    next
      case names: (Inr names)
      with c2 have n: "names = map fst (files w)" and nr: "fault w OpReaddir = None"
        using c1 by auto
      have run: "loadState_try rt mgr w = loadFiles rt mgr names w2"
        using e Inr rd names by (simp add: loadState_try_unfold)
      have sw: "stored_branch rt w2 = stored_branch rt w"
        by (rule ext) (simp add: stored_branch_def w2)
      from loadFiles_facts [of rt mgr names w2] obtain bs where
        ev: "filter is_manager_call (events (snd (loadFiles rt mgr names w2)))
           = filter is_manager_call (events w2) @ map ReconstructBranch bs"
        and st: "map (stored_branch rt w2) (take (length bs) (filter is_branch_file names))
           = map Some bs"
        and ok: "fst (loadFiles rt mgr names w2) = Inr () \<longrightarrow>
           length bs = length (filter is_branch_file names)"
        and ft: "(\<exists>f\<in>set names. is_branch_file f \<and> fault w2 (OpReadFile f) \<noteq> None) \<longrightarrow>
            fst (loadFiles rt mgr names w2) \<noteq> Inr ()"
        and d: "same_disk w2 (snd (loadFiles rt mgr names w2))"
        and p: "same_process w2 (snd (loadFiles rt mgr names w2))"
        by blast
      have io: "load_io_failure w \<longrightarrow> fst (loadFiles rt mgr names w2) \<noteq> Inr ()"
        using ft c1 Inr nr w2 n by (auto simp: load_io_failure_def)
      have pw: "same_process w (snd (loadFiles rt mgr names w2))"
        using w2 p by (auto intro: same_process_trans)
      have fw: "files (snd (loadFiles rt mgr names w2)) = files w"
        using d w2 by (simp add: same_disk_def)
      show ?thesis
        unfolding run using ev st ok io pw fw w2 sw n
        by (intro exI [of _ bs]) simp
    qed
  qed
qed

lemma loadState_rethrows:
  "fst (loadState_try rt mgr w) = Inl e \<Longrightarrow>
   loadState rt mgr w =
     (Inl (Error ''Failed to load persisted state''),
      (snd (loadState_try rt mgr w))
        \<lparr>stderr := stderr (snd (loadState_try rt mgr w)) @ [Caught ''Error loading state:'' e]\<rparr>)"
  by (cases "loadState_try rt mgr w") (simp add: loadState_def console_error_def)

lemma loadState_ok_iff:
  "fst (loadState rt mgr w) = Inr () \<longleftrightarrow> fst (loadState_try rt mgr w) = Inr ()"
  by (cases "loadState_try rt mgr w")
    (auto simp: loadState_def console_error_def split: sum.splits)

lemma loadState_events: "events (snd (loadState rt mgr w)) = events (snd (loadState_try rt mgr w))"
  by (cases "loadState_try rt mgr w")
    (auto simp: loadState_def console_error_def split: sum.splits)

lemma loadState_io_failure:
  "load_io_failure w \<Longrightarrow> fst (loadState rt mgr w) = Inl (Error ''Failed to load persisted state'')"
proof -
  assume io: "load_io_failure w"
  from loadState_try_facts [of rt mgr w] io have "fst (loadState_try rt mgr w) \<noteq> Inr ()"
    by blast
  then obtain e where "fst (loadState_try rt mgr w) = Inl e"
    by (cases "fst (loadState_try rt mgr w)") auto
  then show ?thesis
    by (simp add: loadState_rethrows)
qed

lemma loadState_manager_calls:
  "\<exists>bs. filter is_manager_call (events (snd (loadState rt mgr w)))
         = filter is_manager_call (events w) @ map ReconstructBranch bs
     \<and> map (stored_branch rt w) (take (length bs) (filter is_branch_file (map fst (files w))))
         = map Some bs
     \<and> (fst (loadState rt mgr w) = Inr () \<longrightarrow>
          length bs = length (filter is_branch_file (map fst (files w))))"
  using loadState_try_facts [of rt mgr w]
  unfolding loadState_events loadState_ok_iff by blast

text \<open>
  C5. The calls \<open>saveState\<close> makes on the manager are one \<open>getAllBranches\<close> (none if the
  directory could not be made ready). The calls \<open>loadState\<close> makes are
  \<open>reconstructBranch\<close> calls only, one per branch file of the directory (a name ending
  in \<open>.json\<close> other than \<open>index.json\<close>), in the order of the listing, each on the object
  read from that file; it reaches every branch file when it succeeds, and stops at the
  first failure otherwise.
\<close>

theorem persistence_manager_calls:
  "filter is_manager_call (events (snd (saveState rt mgr w))) =
     filter is_manager_call (events w)
     @ (if fst (ensureStorageDir w) = Inr () then [GetAllBranches] else [])
   \<and> (\<exists>bs. filter is_manager_call (events (snd (loadState rt mgr w)))
              = filter is_manager_call (events w) @ map ReconstructBranch bs
         \<and> map (stored_branch rt w)
               (take (length bs) (filter is_branch_file (map fst (files w)))) = map Some bs
         \<and> (fst (loadState rt mgr w) = Inr () \<longrightarrow>
              length bs = length (filter is_branch_file (map fst (files w)))))"
  using saveState_manager_calls [of rt mgr w] loadState_manager_calls [of rt mgr w]
  by blast


lemmas sample_defs = sample_manager_def sample_runtime_def sample_branch_def sample_thought_def
  fresh_world_def empty_store_def

theorem persistence_manager_calls_witness:
  "fst (loadState sample_runtime sample_manager (saved_world (two_branch_store (1 / 10) (9 / 10))))
     = Inr ()
   \<and> filter is_branch_file (map fst (files (saved_world (two_branch_store (1 / 10) (9 / 10)))))
     = [''gc.json'', ''main.json'']
   \<and> length (filter is_manager_call (events (snd (loadState sample_runtime sample_manager
        (saved_world (two_branch_store (1 / 10) (9 / 10)))))))
     = length (filter is_manager_call (events (saved_world (two_branch_store (1 / 10) (9 / 10))))) + 2
   \<and> filter is_manager_call (events (snd (saveState sample_runtime sample_manager
        (fresh_world (two_branch_store (1 / 10) (9 / 10)))))) = [GetAllBranches]"
proof -
  let ?W = "saved_world (two_branch_store (1 / 10) (9 / 10))"
  let ?w = "fresh_world (two_branch_store (1 / 10) (9 / 10))"
  have ok: "fst (loadState sample_runtime sample_manager ?W) = Inr ()"
    by (simp add: saved_world_def saveState_unfold loadState_def loadState_try_def loadFile_def
        step_defs fs_defs is_branch_file_def endsWith_def after_snapshot_def index_file_def
        index_entry_def js_of_branch_def js_of_thought_def two_branch_store_def sample_defs)
  have fs: "filter is_branch_file (map fst (files ?W)) = [''gc.json'', ''main.json'']"
    by (simp add: saved_world_def saveState_unfold fs_defs is_branch_file_def endsWith_def
        after_snapshot_def two_branch_store_def sample_defs)
  have dir: "fst (ensureStorageDir ?w) = Inr ()"
    by (simp add: fs_defs fresh_world_def)
  have old: "filter is_manager_call (events ?w) = []"
    by (simp add: fresh_world_def)
  note T = persistence_manager_calls [of sample_runtime sample_manager]
  from T [of ?W] ok fs obtain bs where
    "filter is_manager_call (events (snd (loadState sample_runtime sample_manager ?W)))
       = filter is_manager_call (events ?W) @ map ReconstructBranch bs"
    and "length bs = 2"
    by auto
  then have two: "length (filter is_manager_call (events (snd (loadState sample_runtime
        sample_manager ?W)))) = length (filter is_manager_call (events ?W)) + 2"
    by simp
  from T [of ?w] dir old have
    "filter is_manager_call (events (snd (saveState sample_runtime sample_manager ?w)))
       = [GetAllBranches]"
    by simp
  with ok fs two show ?thesis
    by simp
qed

lemma saveState_frame:
  "same_process w (snd (saveState rt mgr w)) \<and> stderr (snd (saveState rt mgr w)) = stderr w"
proof -
  obtain r1 w1 where e: "ensureStorageDir w = (r1, w1)"
    by (cases "ensureStorageDir w")
  have f1: "same_process w w1 \<and> stderr w1 = stderr w"
    using ensureStorageDir_frame [of w] e by simp
  show ?thesis
  proof (cases r1)
    case (Inl err)
    with e f1 show ?thesis
      by (simp add: saveState_dir_fails)
  next
    case (Inr u)
    obtain r2 m1 where g: "getAllBranches mgr (manager w1) = (r2, m1)"
      by (cases "getAllBranches mgr (manager w1)")
    have f2: "same_process w (after_snapshot w1 m1) \<and> stderr (after_snapshot w1 m1) = stderr w"
      using f1 by (simp add: after_snapshot_def same_process_def)
    show ?thesis
    proof (cases r2)
      case (Inl err)
      with e g Inr f2 show ?thesis
        by (simp add: saveState_snapshot_fails)
    next
      case bs: (Inr bs)
      let ?w2 = "after_snapshot w1 m1"
      obtain r3 w3 where wb: "writeBranches rt bs ?w2 = (r3, w3)"
        by (cases "writeBranches rt bs ?w2")
      have f3: "same_process w w3 \<and> stderr w3 = stderr w"
        using writeBranches_frame [of ?w2 rt bs] wb f2 by (auto intro: same_process_trans)
      show ?thesis
      proof (cases r3)
        case (Inl err)
        with e g Inr bs wb f3 show ?thesis
          by (simp add: saveState_unfold)
      next
        case u3: (Inr u3)
        have "saveState rt mgr w = fs_writeFile ''index.json'' (index_file rt (clock w3) bs) w3"
          using e g Inr bs wb u3 by (simp add: saveState_unfold)
        then show ?thesis
          using fs_writeFile_frame [of w3 "''index.json''" "index_file rt (clock w3) bs"] f3
          by (auto intro: same_process_trans)
      qed
    qed
  qed
qed

lemma runServer_init_fails:
  "fst (initialize w) = Inl e \<Longrightarrow> fst (runServer initialize connect w) = Exited 1"
  by (cases "initialize w") (simp add: runServer_def step_defs)

lemma tick_failure:
  assumes t: "t \<in> set (map fst (timers w))" and f: "fst (saveState rt mgr w) = Inl e"
  shows "tick rt mgr t w =
           (snd (saveState rt mgr w))\<lparr>stderr := stderr w @ [Caught ''Auto-save failed:'' e]\<rparr>"
    and "timers (tick rt mgr t w) = timers w"
    and "autoSaveInterval (tick rt mgr t w) = autoSaveInterval w"
    and "tick rt mgr t (tick rt mgr t w) = autoSave_callback rt mgr (tick rt mgr t w)"
proof -
  obtain r w1 where s: "saveState rt mgr w = (r, w1)"
    by (cases "saveState rt mgr w")
  have fr: "same_process w w1 \<and> stderr w1 = stderr w"
    using saveState_frame [of w rt mgr] s by simp
  from s f t show 1: "tick rt mgr t w =
           (snd (saveState rt mgr w))\<lparr>stderr := stderr w @ [Caught ''Auto-save failed:'' e]\<rparr>"
    using fr by (simp add: tick_def autoSave_callback_def console_error_def)
  from fr s show 2: "timers (tick rt mgr t w) = timers w"
    unfolding 1 by (simp add: same_process_def)
  from fr s show "autoSaveInterval (tick rt mgr t w) = autoSaveInterval w"
    unfolding 1 by (simp add: same_process_def)
  from t 2 show "tick rt mgr t (tick rt mgr t w) = autoSave_callback rt mgr (tick rt mgr t w)"
    by (simp add: tick_def)
qed

text \<open>
  C3. Whatever fails inside \<open>loadState\<close> is logged and rethrown as 'Failed to load
  persisted state'; an I/O failure is such a failure. \<open>runServer\<close> exits with code 1 when
  its initialization throws, so it does when that is \<open>loadState\<close> meeting an I/O failure.
  A tick of the autosave timer whose \<open>saveState\<close> fails ends normally: the failure is
  logged, the timer stays scheduled, and the next tick runs the callback, hence
  \<open>saveState\<close>, again.
\<close>

theorem persistence_failures:
  "(fst (loadState_try rt mgr w) = Inl e \<longrightarrow>
      loadState rt mgr w =
        (Inl (Error ''Failed to load persisted state''),
         (snd (loadState_try rt mgr w))
           \<lparr>stderr := stderr (snd (loadState_try rt mgr w))
                        @ [Caught ''Error loading state:'' e]\<rparr>))
   \<and> (load_io_failure w \<longrightarrow>
        fst (loadState rt mgr w) = Inl (Error ''Failed to load persisted state'')
        \<and> fst (runServer (loadState rt mgr) connect w) = Exited 1)
   \<and> (fst (initialize w) = Inl e \<longrightarrow> fst (runServer initialize connect w) = Exited 1)
   \<and> (t \<in> set (map fst (timers w)) \<and> fst (saveState rt mgr w) = Inl e \<longrightarrow>
        tick rt mgr t w =
          (snd (saveState rt mgr w))\<lparr>stderr := stderr w @ [Caught ''Auto-save failed:'' e]\<rparr>
        \<and> timers (tick rt mgr t w) = timers w
        \<and> autoSaveInterval (tick rt mgr t w) = autoSaveInterval w
        \<and> tick rt mgr t (tick rt mgr t w) = autoSave_callback rt mgr (tick rt mgr t w))"
proof (intro conjI impI)
  assume "fst (loadState_try rt mgr w) = Inl e"
  then show "loadState rt mgr w =
        (Inl (Error ''Failed to load persisted state''),
         (snd (loadState_try rt mgr w))
           \<lparr>stderr := stderr (snd (loadState_try rt mgr w))
                        @ [Caught ''Error loading state:'' e]\<rparr>)"
    by (rule loadState_rethrows)
next
  assume io: "load_io_failure w"
  then show l: "fst (loadState rt mgr w) = Inl (Error ''Failed to load persisted state'')"
    by (rule loadState_io_failure)
  then show "fst (runServer (loadState rt mgr) connect w) = Exited 1"
    by (rule runServer_init_fails)
next
  assume "fst (initialize w) = Inl e"
  then show "fst (runServer initialize connect w) = Exited 1"
    by (rule runServer_init_fails)
next
  assume a: "t \<in> set (map fst (timers w)) \<and> fst (saveState rt mgr w) = Inl e"
  then have t: "t \<in> set (map fst (timers w))" and f: "fst (saveState rt mgr w) = Inl e"
    by simp_all
  show "tick rt mgr t w =
          (snd (saveState rt mgr w))\<lparr>stderr := stderr w @ [Caught ''Auto-save failed:'' e]\<rparr>"
    by (rule tick_failure(1) [OF t f])
  show "timers (tick rt mgr t w) = timers w"
    by (rule tick_failure(2) [OF t f])
  show "autoSaveInterval (tick rt mgr t w) = autoSaveInterval w"
    by (rule tick_failure(3) [OF t f])
  show "tick rt mgr t (tick rt mgr t w) = autoSave_callback rt mgr (tick rt mgr t w)"
    by (rule tick_failure(4) [OF t f])
qed


theorem persistence_failures_witness:
  "load_io_failure unreadable_world
   \<and> fst (loadState sample_runtime sample_manager unreadable_world)
       = Inl (Error ''Failed to load persisted state'')
   \<and> fst (runServer (loadState sample_runtime sample_manager) (\<lambda>w. (Inr (), w)) unreadable_world)
       = Exited 1
   \<and> 0 \<in> set (map fst (timers full_disk_world))
   \<and> fst (saveState sample_runtime sample_manager full_disk_world)
       = Inl (Error ''ENOSPC: no space left on device'')
   \<and> stderr (tick sample_runtime sample_manager 0 full_disk_world)
       = [Caught ''Auto-save failed:'' (Error ''ENOSPC: no space left on device'')]
   \<and> timers (tick sample_runtime sample_manager 0 full_disk_world) = [(0, 30000)]
   \<and> map fst (files (tick sample_runtime sample_manager 0
        ((tick sample_runtime sample_manager 0 full_disk_world)\<lparr>fault := (\<lambda>op. None)\<rparr>)))
       = [''index.json'', ''main.json'']"
proof -
  note T = persistence_failures [where rt = sample_runtime and mgr = sample_manager]
  have io: "load_io_failure unreadable_world"
    by (simp add: load_io_failure_def unreadable_world_def fresh_world_def)
  from io T [where w = unreadable_world and connect = "\<lambda>w. (Inr (), w)"]
  have l: "fst (loadState sample_runtime sample_manager unreadable_world)
       = Inl (Error ''Failed to load persisted state'')
     \<and> fst (runServer (loadState sample_runtime sample_manager) (\<lambda>w. (Inr (), w))
          unreadable_world) = Exited 1"
    by blast
  have tm: "timers full_disk_world = [(0, 30000)]"
    by (simp add: full_disk_world_def enableAutoSave_def setInterval_def fresh_world_def)
  then have t0: "0 \<in> set (map fst (timers full_disk_world))"
    by simp
  have er: "stderr full_disk_world = []"
    by (simp add: full_disk_world_def enableAutoSave_def setInterval_def fresh_world_def)
  have sv: "fst (saveState sample_runtime sample_manager full_disk_world)
       = Inl (Error ''ENOSPC: no space left on device'')"
    by (simp add: full_disk_world_def enableAutoSave_def setInterval_def saveState_unfold
        fs_defs after_snapshot_def one_branch_store_def sample_defs)
  from t0 sv T [where w = full_disk_world and t = 0
      and e = "Error ''ENOSPC: no space left on device''"]
  have tk: "tick sample_runtime sample_manager 0 full_disk_world =
          (snd (saveState sample_runtime sample_manager full_disk_world))
            \<lparr>stderr := stderr full_disk_world
               @ [Caught ''Auto-save failed:'' (Error ''ENOSPC: no space left on device'')]\<rparr>
        \<and> timers (tick sample_runtime sample_manager 0 full_disk_world) = timers full_disk_world"
    by blast
  have retry: "map fst (files (tick sample_runtime sample_manager 0
        ((tick sample_runtime sample_manager 0 full_disk_world)\<lparr>fault := (\<lambda>op. None)\<rparr>)))
       = [''index.json'', ''main.json'']"
    by (simp add: tick_def autoSave_callback_def console_error_def full_disk_world_def
        enableAutoSave_def setInterval_def saveState_unfold fs_defs after_snapshot_def
        one_branch_store_def sample_defs)
  from tk have tk1: "tick sample_runtime sample_manager 0 full_disk_world =
          (snd (saveState sample_runtime sample_manager full_disk_world))
            \<lparr>stderr := stderr full_disk_world
               @ [Caught ''Auto-save failed:'' (Error ''ENOSPC: no space left on device'')]\<rparr>"
    and tk2: "timers (tick sample_runtime sample_manager 0 full_disk_world)
        = timers full_disk_world"
    by blast+
  have st: "stderr (tick sample_runtime sample_manager 0 full_disk_world)
       = [Caught ''Auto-save failed:'' (Error ''ENOSPC: no space left on device'')]"
    unfolding tk1 by (simp add: er)
  have tms: "timers (tick sample_runtime sample_manager 0 full_disk_world) = [(0, 30000)]"
    by (simp only: tk2 tm)
  from io l t0 sv st tms retry show ?thesis
    by blast
qed

section \<open>The round trip\<close>

lemma update_fresh: "k \<notin> fst ` set al \<Longrightarrow> AList.update k v al = al @ [(k, v)]"
  by (induction al) auto

lemma foldl_update_distinct:
  "distinct (map fst (acc @ ps)) \<Longrightarrow>
   foldl (\<lambda>acc p. AList.update (fst p) (snd p) acc) acc ps = acc @ ps"
proof (induction ps arbitrary: acc)
  case Nil
  then show ?case by simp
next
  case (Cons p ps)
  from Cons.prems have fresh: "fst p \<notin> fst ` set acc"
    by auto
  have "AList.update (fst p) (snd p) acc = acc @ [p]"
    using update_fresh [OF fresh, of "snd p"] by simp
  moreover have "distinct (map fst ((acc @ [p]) @ ps))"
    using Cons.prems by simp
  ultimately show ?case
    using Cons.IH [of "acc @ [p]"] by simp
qed

lemma roundtrip_plain: "plain_json v \<Longrightarrow> js_of_json (JSON_stringify rt v) = v"
proof (induction v)
  case (VArr xs)
  then show ?case
    by (simp add: list_all_iff map_idI)
next
  case (VObj ps)
  have d: "distinct (map fst ps)" and pl: "\<forall>p\<in>set ps. plain_json (snd p)"
    using VObj.prems by (simp_all add: list_all_iff)
  have nu: "filter (\<lambda>p. snd p \<noteq> VUndefined) ps = ps"
    using pl by (auto simp: filter_id_conv)
  have each: "map ((\<lambda>p. (fst p, js_of_json (snd p)))
                \<circ> (\<lambda>p. (fst p, JSON_stringify rt (snd p)))) ps = ps"
  proof -
    have "\<And>p. p \<in> set ps \<Longrightarrow> js_of_json (JSON_stringify rt (snd p)) = snd p"
    proof -
      fix p assume p: "p \<in> set ps"
      obtain k x where kx: "p = (k, x)"
        by (cases p)
      with p have "x \<in> Basic_BNFs.snds p" and "p \<in> set ps"
        by simp_all
      with VObj.IH [of p x] pl p kx show "js_of_json (JSON_stringify rt (snd p)) = snd p"
        by auto
    qed
    then show ?thesis
      by (simp add: map_idI o_def)
  qed
  show ?case
    using foldl_update_distinct [of "[]" ps] d
    by (simp add: nu each)
qed simp_all


lemma stringify_thought:
  "JSON_stringify rt (js_of_thought t) = JSON_stringify rt (thought_on_disk rt t)"
  by (simp add: js_of_thought_def thought_on_disk_def)

lemma stringify_branch:
  "JSON_stringify rt (js_of_branch b) = JSON_stringify rt (branch_on_disk rt b)"
  by (simp add: js_of_branch_def branch_on_disk_def stringify_thought)

lemma plain_thought_on_disk:
  "well_formed_thought rt t \<Longrightarrow> plain_json (thought_on_disk rt t)"
  by (simp add: well_formed_thought_def thought_on_disk_def)

lemma plain_branch_on_disk:
  "well_formed_branch rt b \<Longrightarrow> plain_json (branch_on_disk rt b)"
  by (auto simp: well_formed_branch_def branch_on_disk_def list_all_iff plain_thought_on_disk)

lemma parse_written_branch:
  "well_formed_branch rt b \<Longrightarrow>
   js_of_json (JSON_stringify rt (js_of_branch b)) = branch_on_disk rt b"
  by (simp add: stringify_branch roundtrip_plain plain_branch_on_disk)

lemma set_timestamp_on_disk:
  "well_formed_thought rt t \<Longrightarrow> set_timestamp rt (thought_on_disk rt t) = Inr (js_of_thought t)"
  by (simp add: well_formed_thought_def thought_on_disk_def js_of_thought_def)

lemma rehydrate_each_on_disk:
  "list_all (well_formed_thought rt) ts \<Longrightarrow>
   rehydrate_each rt (map (thought_on_disk rt) ts) = Inr (map js_of_thought ts)"
  by (induction ts) (simp_all add: set_timestamp_on_disk)

lemma rehydrate_on_disk:
  "well_formed_branch rt b \<Longrightarrow> rehydrate rt (branch_on_disk rt b) = Inr (js_of_branch b)"
  by (simp add: well_formed_branch_def branch_on_disk_def js_of_branch_def
      rehydrate_each_on_disk)

text \<open>
  What is written for a well-formed branch reads back as the same object: this is the
  round trip of one file.
\<close>

lemma roundtrip_branch:
  "well_formed_branch rt b \<Longrightarrow>
   rehydrate rt (js_of_json (JSON_stringify rt (js_of_branch b))) = Inr (js_of_branch b)"
  by (simp add: parse_written_branch rehydrate_on_disk)


lemma endsWith_json: "endsWith (a @ ''.json'') ''.json''"
  by (simp add: endsWith_def)

lemma is_branch_file_json: "is_branch_file (a @ ''.json'') \<longleftrightarrow> a \<noteq> ''index''"
  using json_name_index [of a] by (simp add: is_branch_file_def endsWith_json)

lemma saved_directory:
  assumes E: "ensureStorageDir w = (Inr u, w1)"
    and G: "getAllBranches mgr (manager w1) = (Inr bs, m1)"
    and S: "fst (saveState rt mgr w) = Inr ()"
    and empty: "files w = []"
    and d: "distinct (map branchIdent bs)"
    and ids: "\<forall>b\<in>set bs. CHR ''/'' \<notin> set (branchIdent b) \<and> branchIdent b \<noteq> ''index''"
  shows "fst ` set (files (snd (saveState rt mgr w)))
           = insert ''index.json'' ((\<lambda>b. branchIdent b @ ''.json'') ` set bs)"
    and "sorted_wrt (<) (map fst (files (snd (saveState rt mgr w))))"
    and "\<forall>b\<in>set bs. map_of (files (snd (saveState rt mgr w))) (branchIdent b @ ''.json'')
           = Some (JsonText (JSON_stringify rt (js_of_branch b)))"
proof -
  have plain: "\<forall>b\<in>set bs. CHR ''/'' \<notin> set (branchIdent b)"
    using ids by blast
  note fs = saveState_files [OF E G S plain]
  show "fst ` set (files (snd (saveState rt mgr w)))
           = insert ''index.json'' ((\<lambda>b. branchIdent b @ ''.json'') ` set bs)"
    unfolding fs by (simp add: keys_put_file keys_foldl_put empty branch_file_def)
  show "sorted_wrt (<) (map fst (files (snd (saveState rt mgr w))))"
    unfolding fs by (intro listing_put_file listing_foldl_put) (simp add: empty)
  show "\<forall>b\<in>set bs. map_of (files (snd (saveState rt mgr w))) (branchIdent b @ ''.json'')
           = Some (JsonText (JSON_stringify rt (js_of_branch b)))"
  proof
    fix b
    assume b: "b \<in> set bs"
    with ids have ni: "branchIdent b @ ''.json'' \<noteq> ''index.json''"
      using json_name_index [of "branchIdent b"] by blast
    have dn: "distinct (map (\<lambda>b. fst (branch_file rt b)) bs)"
      using d by (simp add: branch_file_def distinct_map inj_on_def)
    have "map_of (foldl (\<lambda>fs b. put_file (fst (branch_file rt b)) (snd (branch_file rt b)) fs)
                  (files w) bs) (fst (branch_file rt b)) = Some (snd (branch_file rt b))"
      by (rule map_of_foldl_put_written [OF dn b])
    then show "map_of (files (snd (saveState rt mgr w))) (branchIdent b @ ''.json'')
                 = Some (JsonText (JSON_stringify rt (js_of_branch b)))"
      unfolding fs using ni by (simp add: map_of_put_file branch_file_def)
  qed
qed

text \<open>
  The round trip of a directory. Branches with distinct ids, none with a \<open>/\<close> and none
  called \<open>index\<close>, all well formed, are saved into an empty directory; a \<open>loadState\<close> on
  that directory that succeeds, in whatever process and with whatever manager, calls
  \<open>reconstructBranch\<close> once on each of these branches and on nothing else, in the order
  of their file names, each identical to the one saved: same thoughts in the same
  order with their timestamps as dates again, same insights, cross-references, state
  and priority.
\<close>

lemma save_then_load:
  assumes E: "ensureStorageDir w = (Inr u, w1)"
    and G: "getAllBranches mgr (manager w1) = (Inr bs, m1)"
    and S: "fst (saveState rt mgr w) = Inr ()"
    and empty: "files w = []"
    and d: "distinct (map branchIdent bs)"
    and ids: "\<forall>b\<in>set bs. CHR ''/'' \<notin> set (branchIdent b) \<and> branchIdent b \<noteq> ''index''"
    and wf: "\<forall>b\<in>set bs. well_formed_branch rt b"
    and W: "files W = files (snd (saveState rt mgr w))"
    and L: "fst (loadState rt mgr' W) = Inr ()"
  shows "\<exists>cs. filter is_manager_call (events (snd (loadState rt mgr' W)))
                = filter is_manager_call (events W)
                  @ map (\<lambda>b. ReconstructBranch (js_of_branch b)) cs
              \<and> set cs = set bs \<and> distinct cs
              \<and> sorted_wrt (<) (map (\<lambda>b. branchIdent b @ ''.json'') cs)"
proof -
  let ?name = "\<lambda>b. branchIdent b @ ''.json''"
  let ?L = "filter is_branch_file (map fst (files W))"
  note sd = saved_directory [OF E G S empty d ids]
  have keys: "fst ` set (files W) = insert ''index.json'' (?name ` set bs)"
    using sd(1) W by simp
  have sorted: "sorted_wrt (<) ?L"
    using sd(2) W by (simp add: sorted_wrt_filter)
  have setL: "set ?L = ?name ` set bs"
  proof -
    have "set ?L = {n \<in> insert ''index.json'' (?name ` set bs). is_branch_file n}"
      using keys by auto
    also have "\<dots> = ?name ` set bs"
    proof -
      have "\<not> is_branch_file ''index.json''"
        by (simp add: is_branch_file_def)
      then show ?thesis
        using ids by (auto simp: is_branch_file_json)
    qed
    finally show ?thesis .
  qed
  have inj: "inj_on ?name (set bs)"
    using d by (auto simp: distinct_map inj_on_def)
  define cs where "cs = map (inv_into (set bs) ?name) ?L"
  have names: "map ?name cs = ?L"
  proof -
    have "\<And>n. n \<in> set ?L \<Longrightarrow> ?name (inv_into (set bs) ?name n) = n"
      unfolding setL by (rule f_inv_into_f)
    then have "map (\<lambda>n. ?name (inv_into (set bs) ?name n)) ?L = ?L"
      by (intro map_idI)
    then show ?thesis
      unfolding cs_def by (simp only: map_map o_def)
  qed
  have set_cs: "set cs = set bs"
    unfolding cs_def set_map setL by (rule inv_into_image_cancel [OF inj subset_refl])
  have "distinct ?L"
    using sorted strict_sorted_iff by blast
  then have dist: "distinct cs"
    using names by (metis distinct_map)
  have stored: "\<And>b. b \<in> set bs \<Longrightarrow> stored_branch rt W (?name b) = Some (js_of_branch b)"
  proof -
    fix b assume b: "b \<in> set bs"
    have "map_of (files W) (?name b) = Some (JsonText (JSON_stringify rt (js_of_branch b)))"
      using sd(3) W b by simp
    moreover have "well_formed_branch rt b"
      using wf b by blast
    ultimately show "stored_branch rt W (?name b) = Some (js_of_branch b)"
      by (simp add: stored_branch_def roundtrip_branch)
  qed
  from loadState_manager_calls [of rt mgr' W] L obtain bs' where
    ev: "filter is_manager_call (events (snd (loadState rt mgr' W)))
         = filter is_manager_call (events W) @ map ReconstructBranch bs'"
    and st: "map (stored_branch rt W) (take (length bs') ?L) = map Some bs'"
    and len: "length bs' = length ?L"
    by auto
  from st len have "map (stored_branch rt W) (map ?name cs) = map Some bs'"
    by (simp add: names)
  moreover have "map (stored_branch rt W) (map ?name cs) = map (\<lambda>b. Some (js_of_branch b)) cs"
    using stored set_cs by simp
  ultimately have h: "map Some bs' = map Some (map js_of_branch cs)"
    by (simp add: o_def)
  have bs': "bs' = map js_of_branch cs"
    by (rule map_injective [OF h]) simp
  have "sorted_wrt (<) (map ?name cs)"
    using sorted names by simp
  with ev bs' set_cs dist show ?thesis
    by (intro exI [of _ cs]) (simp add: o_def)
qed

lemma save_then_load_example:
  "filter is_manager_call (events (snd (loadState sample_runtime sample_manager
      (saved_world (two_branch_store (1 / 10) (9 / 10))))))
     = filter is_manager_call (events (saved_world (two_branch_store (1 / 10) (9 / 10))))
       @ [ReconstructBranch (js_of_branch (sample_branch ''gc'' (9 / 10) [])),
          ReconstructBranch (js_of_branch (sample_branch ''main'' (1 / 10)
            [sample_thought ''t1'' ''main'' ''Investigate latency'']))]"
  by (simp add: saved_world_def saveState_unfold loadState_def loadState_try_def loadFile_def
      step_defs fs_defs is_branch_file_def endsWith_def after_snapshot_def index_file_def
      index_entry_def js_of_branch_def js_of_thought_def two_branch_store_def sample_defs)

text \<open>
  C1. The round trip fails on the code for a branch whose id is \<open>index\<close>: its file is \<open>index.json\<close>,
  which \<open>saveState\<close> then overwrites with the index and \<open>loadState\<close> skips. Saving the two
  branches \<open>main\<close> and \<open>index\<close> succeeds and leaves two files; loading them into an empty
  manager succeeds and hands it \<open>main\<close> only.
\<close>

theorem branch_named_index_is_lost:
  "map branchIdent (branches index_named_store) = [''main'', ''index'']
   \<and> fst (saveState sample_runtime sample_manager (fresh_world index_named_store)) = Inr ()
   \<and> map fst (files (snd (saveState sample_runtime sample_manager
        (fresh_world index_named_store)))) = [''index.json'', ''main.json'']
   \<and> map_of (files (snd (saveState sample_runtime sample_manager
        (fresh_world index_named_store)))) ''index.json''
       = Some (index_file sample_runtime 1000000000000 (branches index_named_store))
   \<and> fst (loadState sample_runtime sample_manager
        ((snd (saveState sample_runtime sample_manager (fresh_world index_named_store)))
           \<lparr>manager := empty_store\<rparr>)) = Inr ()
   \<and> replayed (manager (snd (loadState sample_runtime sample_manager
        ((snd (saveState sample_runtime sample_manager (fresh_world index_named_store)))
           \<lparr>manager := empty_store\<rparr>))))
       = [js_of_branch (sample_branch ''main'' (1 / 2)
            [sample_thought ''t1'' ''main'' ''Investigate latency''])]"
  by (simp add: saveState_unfold loadState_def loadState_try_def loadFile_def step_defs fs_defs
      is_branch_file_def endsWith_def fresh_world_def sample_manager_def after_snapshot_def
      index_named_store_def empty_store_def sample_branch_def sample_thought_def index_file_def
      index_entry_def js_of_branch_def js_of_thought_def sample_runtime_def)

end
